theory Spec2Isabelle
  imports Main "HOL-Library.Word" "HOL-Library.Sublist"
begin

section \<open>Smart pool controller: firmware model\<close>

text \<open>
  A shallow embedding of \<^verbatim>\<open>firmware/src/main.cpp\<close> and
  \<^verbatim>\<open>firmware/src/ble_provisioning.cpp\<close>. The firmware keeps its state in file-level
  \<^verbatim>\<open>static\<close> variables; here they are the fields of one record that every operation takes
  and returns. Calls on the hardware and on the vendor libraries (GPIO, MQTT client, WiFi,
  BLE stack, \<^verbatim>\<open>ESP.restart\<close>) are recorded, in call order, in the field \<open>trace\<close>.
  \<^verbatim>\<open>Serial\<close> output and \<^verbatim>\<open>delay\<close> are not modelled; every reading of \<^verbatim>\<open>millis()\<close> is a
  parameter \<open>now\<close>.
\<close>

subsection \<open>Constants of \<^verbatim>\<open>config.h\<close> and \<^verbatim>\<open>main.cpp\<close>\<close>

type_synonym u32 = "32 word"

abbreviation (input) VALVE_RELAY_PIN :: nat where "VALVE_RELAY_PIN \<equiv> 25"
abbreviation (input) PUMP_RELAY_PIN :: nat where "PUMP_RELAY_PIN \<equiv> 26"

abbreviation TOPIC_PUMP_SET :: string where
  "TOPIC_PUMP_SET \<equiv> ''devices/esp32-pool-01/pump/set''"
abbreviation TOPIC_PUMP_STATE :: string where
  "TOPIC_PUMP_STATE \<equiv> ''devices/esp32-pool-01/pump/state''"
abbreviation TOPIC_VALVE_SET :: string where
  "TOPIC_VALVE_SET \<equiv> ''devices/esp32-pool-01/valve/set''"
abbreviation TOPIC_VALVE_STATE :: string where
  "TOPIC_VALVE_STATE \<equiv> ''devices/esp32-pool-01/valve/state''"
abbreviation TOPIC_WIFI_STATE :: string where
  "TOPIC_WIFI_STATE \<equiv> ''devices/esp32-pool-01/wifi/state''"
abbreviation TOPIC_WIFI_CLEAR :: string where
  "TOPIC_WIFI_CLEAR \<equiv> ''devices/esp32-pool-01/wifi/clear''"
abbreviation TOPIC_TIMER_SET :: string where
  "TOPIC_TIMER_SET \<equiv> ''devices/esp32-pool-01/timer/set''"
abbreviation TOPIC_TIMER_STATE :: string where
  "TOPIC_TIMER_STATE \<equiv> ''devices/esp32-pool-01/timer/state''"
abbreviation TOPIC_TEMP_STATE :: string where
  "TOPIC_TEMP_STATE \<equiv> ''devices/esp32-pool-01/temperature/state''"

abbreviation (input) WIFI_RETRY_ATTEMPTS :: int where "WIFI_RETRY_ATTEMPTS \<equiv> 3"
abbreviation (input) TIMER_PUBLISH_INTERVAL :: u32 where "TIMER_PUBLISH_INTERVAL \<equiv> 10000"
abbreviation (input) BLE_CHECK_INTERVAL :: u32 where "BLE_CHECK_INTERVAL \<equiv> 1000"

abbreviation STATUS_DISCONNECTED :: string where
  \<open>STATUS_DISCONNECTED \<equiv> ''{"status":"disconnected"}''\<close>

subsection \<open>State and trace\<close>

datatype event =
    DigitalWrite nat bool
  | MqttPublish string string bool
  | MqttSubscribe string
  | MqttConnect
  | MqttDisconnect
  | WiFiBegin string string
  | WiFiDisconnect bool bool
  | NvsPutString string string
  | NvsClear
  | BLEStart
  | BLEStop
  | EspRestart

record state =
  pumpState :: bool
  valveMode :: int
  wifiProvisioned :: bool
  timerActive :: bool
  timerMode :: int
  timerDuration :: u32
  timerRemaining :: u32
  timerLastUpdate :: u32
  lastPublish :: u32
  nvs :: "string \<rightharpoonup> string"
  bleActive :: bool
  newCredentialsReceived :: bool
  receivedSSID :: string
  receivedPassword :: string
  clearWiFiRequested :: bool
  lastBLECheck :: u32
  trace :: "event list"

text \<open>The values the \<^verbatim>\<open>static\<close> initialisers give, with an empty key-value store.\<close>

definition boot_state :: state where
  "boot_state = \<lparr> pumpState = False, valveMode = 1, wifiProvisioned = False,
     timerActive = False, timerMode = 1, timerDuration = 0, timerRemaining = 0,
     timerLastUpdate = 0, lastPublish = 0, nvs = Map.empty, bleActive = False,
     newCredentialsReceived = False, receivedSSID = [], receivedPassword = [],
     clearWiFiRequested = False, lastBLECheck = 0, trace = [] \<rparr>"

definition emit :: "event \<Rightarrow> state \<Rightarrow> state" where
  "emit e s = s\<lparr>trace := trace s @ [e]\<rparr>"

subsection \<open>Arduino \<^verbatim>\<open>String\<close> and C library helpers\<close>

text \<open>Decimal rendering, as \<^verbatim>\<open>String(uint32_t)\<close> and \<^verbatim>\<open>String(int)\<close> produce it.\<close>

definition digit_char :: "nat \<Rightarrow> char" where
  "digit_char n = ''0123456789'' ! n"

fun String_of_nat :: "nat \<Rightarrow> string" where
  "String_of_nat n =
     (if n < 10 then [digit_char n]
      else String_of_nat (n div 10) @ [digit_char (n mod 10)])"

declare String_of_nat.simps [simp del]

definition String_of_int :: "int \<Rightarrow> string" where
  "String_of_int i = (if i < 0 then CHR ''-'' # String_of_nat (nat (- i)) else String_of_nat (nat i))"

definition isspace :: "char \<Rightarrow> bool" where
  "isspace c = (c \<in> set [CHR '' '', CHR 0x09, CHR 0x0A, CHR 0x0B, CHR 0x0C, CHR 0x0D])"

definition isdigit :: "char \<Rightarrow> bool" where
  "isdigit c = (c \<in> set ''0123456789'')"

definition toupper :: "char \<Rightarrow> char" where
  "toupper c =
     (case map_of (zip ''abcdefghijklmnopqrstuvwxyz'' ''ABCDEFGHIJKLMNOPQRSTUVWXYZ'') c of
        Some u \<Rightarrow> u
      | None \<Rightarrow> c)"

text \<open>
  An Arduino \<^verbatim>\<open>String\<close> is a buffer with a length, so it can hold a NUL byte, but the
  methods that hand the buffer to the C library see it only up to the first NUL:
  \<open>c_str\<close> is that part. \<^verbatim>\<open>String::toUpperCase\<close> walks the buffer up to the first NUL;
  \<^verbatim>\<open>String == const char*\<close> is \<^verbatim>\<open>strcmp\<close>.
\<close>

definition c_str :: "string \<Rightarrow> string" where
  "c_str s = takeWhile (\<lambda>c. c \<noteq> CHR 0x00) s"

fun toUpperCase :: "string \<Rightarrow> string" where
  "toUpperCase [] = []"
| "toUpperCase (c # cs) = (if c = CHR 0x00 then c # cs else toupper c # toUpperCase cs)"

definition String_equals :: "string \<Rightarrow> string \<Rightarrow> bool" where
  "String_equals s lit = (c_str s = lit)"

definition trim :: "string \<Rightarrow> string" where
  "trim s = rev (dropWhile isspace (rev (dropWhile isspace s)))"

text \<open>\<^verbatim>\<open>payloadToString\<close>: copy the bytes, then trim.\<close>

definition payloadToString :: "string \<Rightarrow> string" where
  "payloadToString payload = trim payload"

text \<open>\<^verbatim>\<open>strstr\<close>: offset of the first occurrence of the needle.\<close>

fun strstr :: "string \<Rightarrow> string \<Rightarrow> nat option" where
  "strstr [] needle = (if needle = [] then Some 0 else None)"
| "strstr (h # hs) needle =
     (if prefix needle (h # hs) then Some 0 else map_option Suc (strstr hs needle))"

text \<open>
  \<^verbatim>\<open>String::indexOf(const String&, unsigned int fromIndex)\<close>: \<open>-1\<close> when
  \<open>fromIndex \<ge> len\<close> or when \<^verbatim>\<open>strstr(buffer + fromIndex, needle)\<close> finds nothing (it
  searches up to the first NUL), else the offset from the start of the buffer. An \<^verbatim>\<open>int\<close> passed for \<open>fromIndex\<close> is converted to
  \<^verbatim>\<open>unsigned int\<close>.
\<close>

definition to_unsigned :: "int \<Rightarrow> nat" where
  "to_unsigned i = nat (i mod 2 ^ 32)"

definition indexOfFrom :: "string \<Rightarrow> string \<Rightarrow> int \<Rightarrow> int" where
  "indexOfFrom s needle fromIndex =
     (let from = to_unsigned fromIndex in
      if from \<ge> length s then -1
      else case strstr (c_str (drop from s)) needle of
             None \<Rightarrow> -1
           | Some k \<Rightarrow> int (from + k))"

definition indexOf :: "string \<Rightarrow> string \<Rightarrow> int" where
  "indexOf s needle = indexOfFrom s needle 0"

text \<open>
  \<^verbatim>\<open>String::substring(unsigned int left, unsigned int right)\<close>: swaps the bounds when
  \<open>left > right\<close>, returns the empty string when \<open>left \<ge> len\<close>, and clips \<open>right\<close> to
  the length.
\<close>

definition substring :: "string \<Rightarrow> int \<Rightarrow> int \<Rightarrow> string" where
  "substring s left right =
     (let l0 = to_unsigned left; r0 = to_unsigned right;
          l = (if l0 > r0 then r0 else l0);
          r = (if l0 > r0 then l0 else r0)
      in if l \<ge> length s then []
         else take (min r (length s) - l) (drop l s))"

text \<open>
  \<^verbatim>\<open>String::toInt\<close> is \<^verbatim>\<open>atol\<close>: leading white space, an optional sign, then decimal
  digits; \<open>0\<close> when there is no digit. The value is clamped to the range of a 32-bit
  \<^verbatim>\<open>long\<close>, as \<^verbatim>\<open>strtol\<close> does.
\<close>

definition digits_value :: "string \<Rightarrow> int" where
  "digits_value ds = foldl (\<lambda>acc c. 10 * acc + (int (of_char c) - 48)) 0 ds"

definition toInt :: "string \<Rightarrow> int" where
  "toInt s =
     (let t = dropWhile isspace s;
          neg = (t \<noteq> [] \<and> hd t = CHR ''-'');
          u = (if t \<noteq> [] \<and> (hd t = CHR ''-'' \<or> hd t = CHR ''+'') then tl t else t);
          v = digits_value (takeWhile isdigit u);
          x = (if neg then - v else v)
      in max (- (2 ^ 31)) (min (2 ^ 31 - 1) x))"

subsection \<open>MQTT state publishing\<close>

definition mqtt_publish :: "string \<Rightarrow> string \<Rightarrow> bool \<Rightarrow> state \<Rightarrow> state" where
  "mqtt_publish topic payload retain s = emit (MqttPublish topic payload retain) s"

definition publishPumpState :: "state \<Rightarrow> state" where
  "publishPumpState s =
     mqtt_publish TOPIC_PUMP_STATE (if pumpState s then ''ON'' else ''OFF'') True s"

text \<open>\<^verbatim>\<open>msg[0] = '0' + valveMode\<close>: the sum is stored in a \<^verbatim>\<open>char\<close>, so it is taken modulo 256.\<close>

definition valve_msg :: "state \<Rightarrow> string" where
  "valve_msg s = [char_of (of_char (CHR ''0'') + valveMode s)]"

definition publishValveState :: "state \<Rightarrow> state" where
  "publishValveState s = mqtt_publish TOPIC_VALVE_STATE (valve_msg s) True s"

definition timer_json :: "state \<Rightarrow> string" where
  \<open>timer_json s =
     ''{'' @ ''"active":'' @ (if timerActive s then ''true'' else ''false'') @ '','' @
     ''"remaining":'' @ String_of_nat (unat (timerRemaining s)) @ '','' @
     ''"mode":'' @ String_of_int (timerMode s) @ '','' @
     ''"duration":'' @ String_of_nat (unat (timerDuration s)) @
     ''}''\<close>

definition publishTimerState :: "state \<Rightarrow> state" where
  "publishTimerState s = mqtt_publish TOPIC_TIMER_STATE (timer_json s) True s"

subsection \<open>Relay control\<close>

definition setPumpRelay :: "bool \<Rightarrow> state \<Rightarrow> state" where
  "setPumpRelay targetState s =
     (emit (DigitalWrite PUMP_RELAY_PIN targetState) s)\<lparr>pumpState := targetState\<rparr>"

definition setValveRelay :: "int \<Rightarrow> state \<Rightarrow> state" where
  "setValveRelay targetMode s =
     (if targetMode \<noteq> 1 \<and> targetMode \<noteq> 2 then s
      else (emit (DigitalWrite VALVE_RELAY_PIN (targetMode = 2)) s)\<lparr>valveMode := targetMode\<rparr>)"

subsection \<open>Control logic\<close>

definition setPumpState :: "bool \<Rightarrow> state \<Rightarrow> state" where
  "setPumpState targetState s = publishPumpState (setPumpRelay targetState s)"

definition setValveMode :: "int \<Rightarrow> state \<Rightarrow> state" where
  "setValveMode targetMode s =
     (if targetMode \<noteq> 1 \<and> targetMode \<noteq> 2 then s
      else if valveMode s = targetMode then publishValveState s
      else publishValveState (setValveRelay targetMode s))"

subsection \<open>Timer control\<close>

definition startTimer :: "int \<Rightarrow> u32 \<Rightarrow> u32 \<Rightarrow> state \<Rightarrow> state" where
  "startTimer mode durationSeconds now s =
     (if mode \<noteq> 1 \<and> mode \<noteq> 2 then s
      else if durationSeconds = 0 then s
      else
        let s1 = s\<lparr>timerActive := True, timerMode := mode,
                    timerDuration := durationSeconds, timerRemaining := durationSeconds,
                    timerLastUpdate := now\<rparr>;
            s2 = setValveMode mode s1;
            s3 = setPumpState True s2
        in publishTimerState s3)"

definition stopTimer :: "state \<Rightarrow> state" where
  "stopTimer s =
     (if \<not> timerActive s then s
      else
        let s1 = s\<lparr>timerActive := False, timerRemaining := 0\<rparr>;
            s2 = setPumpState False s1
        in publishTimerState s2)"

text \<open>
  \<^verbatim>\<open>updateTimer\<close>. \<open>lastPublish\<close> is the function's \<^verbatim>\<open>static\<close> local. All arithmetic is
  on \<^verbatim>\<open>uint32_t\<close>: the subtractions wrap and the division is unsigned.
\<close>

definition updateTimer :: "u32 \<Rightarrow> state \<Rightarrow> state" where
  "updateTimer now s =
     (if \<not> timerActive s then s
      else
        let elapsed = (now - timerLastUpdate s) div 1000 in
        if elapsed \<ge> 1 then
          let s1 = s\<lparr>timerLastUpdate := now\<rparr> in
          if timerRemaining s1 > 0 then
            let s2 = s1\<lparr>timerRemaining := timerRemaining s1 - 1\<rparr> in
            if timerRemaining s2 mod 10 = 0 \<or> timerRemaining s2 \<le> 10
               \<or> now - lastPublish s2 > TIMER_PUBLISH_INTERVAL
            then publishTimerState (s2\<lparr>lastPublish := now\<rparr>)
            else s2
          else stopTimer s1
        else s)"

subsection \<open>Credential store (NVS namespace \<^verbatim>\<open>wifi\<close>)\<close>

text \<open>
  \<^verbatim>\<open>Preferences\<close> is the vendor's key-value store. The field \<open>nvs\<close> is the content of
  the namespace \<^verbatim>\<open>wifi\<close>: \<^verbatim>\<open>getString\<close> returns the stored value or the default,
  \<^verbatim>\<open>putString\<close> stores a value (taken to succeed; the firmware ignores its result),
  \<^verbatim>\<open>clear\<close> removes every key. A \<^verbatim>\<open>const char*\<close> argument is the list of its bytes
  before the terminator.
\<close>

definition getString :: "(string \<rightharpoonup> string) \<Rightarrow> string \<Rightarrow> string \<Rightarrow> string" where
  "getString m key dflt = (case m key of Some v \<Rightarrow> v | None \<Rightarrow> dflt)"

text \<open>
  \<^verbatim>\<open>strncpy(dst, src, n); dst[n] = '\0'\<close> leaves the first \<open>n\<close> bytes of the source in
  the buffer.
\<close>

definition strncpy_term :: "string \<Rightarrow> nat \<Rightarrow> string" where
  "strncpy_term src n = take n src"

definition loadWiFiCredentials :: "state \<Rightarrow> (string \<times> string) option" where
  "loadWiFiCredentials s =
     (let savedSSID = getString (nvs s) ''ssid'' [];
          savedPassword = getString (nvs s) ''password'' []
      in if length savedSSID = 0 then None
         else Some (strncpy_term savedSSID 32, strncpy_term savedPassword 63))"

definition saveWiFiCredentials :: "string \<Rightarrow> string \<Rightarrow> state \<Rightarrow> state" where
  "saveWiFiCredentials ssid password s =
     (let s1 = (emit (NvsPutString ''ssid'' ssid) s)\<lparr>nvs := (nvs s)(''ssid'' \<mapsto> ssid)\<rparr>
      in (emit (NvsPutString ''password'' password) s1)
           \<lparr>nvs := (nvs s1)(''password'' \<mapsto> password)\<rparr>)"

definition clearWiFiCredentials :: "state \<Rightarrow> state" where
  "clearWiFiCredentials s = (emit NvsClear s)\<lparr>nvs := Map.empty\<rparr>"

subsection \<open>MQTT message handler\<close>

text \<open>
  \<^verbatim>\<open>onMqttMessage\<close>. The payload is trimmed and upper-cased before any branch looks at
  it. \<open>now\<close> is the \<^verbatim>\<open>millis()\<close> reading \<^verbatim>\<open>startTimer\<close> takes.
\<close>

definition timer_command :: "string \<Rightarrow> u32 \<Rightarrow> state \<Rightarrow> state" where
  \<open>timer_command msg now s =
     (let modeIdx = indexOf msg ''"mode":'';
          durationIdx = indexOf msg ''"duration":''
      in if modeIdx = -1 \<or> durationIdx = -1 then s
         else
           let modeStart = indexOfFrom msg '':'' modeIdx + 1;
               modeEnd0 = indexOfFrom msg '','' modeStart;
               modeEnd = (if modeEnd0 = -1 then indexOfFrom msg ''}'' modeStart else modeEnd0);
               modeStr = trim (substring msg modeStart modeEnd);
               mode = toInt modeStr;
               durationStart = indexOfFrom msg '':'' durationIdx + 1;
               durationEnd0 = indexOfFrom msg ''}'' durationStart;
               durationEnd = (if durationEnd0 = -1 then int (length msg) else durationEnd0);
               durationStr = trim (substring msg durationStart durationEnd);
               duration = (word_of_int (toInt durationStr) :: u32)
           in if duration = 0 then stopTimer s
              else startTimer mode duration now s)\<close>

definition wifi_clear_command :: "state \<Rightarrow> state" where
  "wifi_clear_command s =
     (let s1 = mqtt_publish TOPIC_WIFI_STATE STATUS_DISCONNECTED True s;
          s2 = emit MqttDisconnect s1;
          s3 = emit (WiFiDisconnect True True) s2;
          s4 = clearWiFiCredentials s3
      in emit EspRestart s4)"

definition onMqttMessage :: "string \<Rightarrow> string \<Rightarrow> u32 \<Rightarrow> state \<Rightarrow> state" where
  "onMqttMessage topic payload now s =
     (let t = topic; msg = toUpperCase (payloadToString payload) in
      if t = TOPIC_PUMP_SET then
        (if String_equals msg ''ON'' \<or> String_equals msg ''1'' then setPumpState True s
         else if String_equals msg ''OFF'' \<or> String_equals msg ''0'' then setPumpState False s
         else if String_equals msg ''TOGGLE'' then setPumpState (\<not> pumpState s) s
         else s)
      else if t = TOPIC_VALVE_SET then
        (if String_equals msg ''1'' then setValveMode 1 s
         else if String_equals msg ''2'' then setValveMode 2 s
         else if String_equals msg ''TOGGLE'' then
           setValveMode (if valveMode s = 1 then 2 else 1) s
         else s)
      else if t = TOPIC_TIMER_SET then timer_command msg now s
      else if t = TOPIC_WIFI_CLEAR then wifi_clear_command s
      else s)"

subsection \<open>WiFi connection and BLE provisioning\<close>

text \<open>
  What the radio, the broker and the sensor answer is outside the firmware; it comes in
  as an environment. \<open>link_up k\<close> says whether attempt number \<open>k\<close> of a
  \<^verbatim>\<open>connectWiFi\<close> call reaches \<^verbatim>\<open>WL_CONNECTED\<close> before \<^verbatim>\<open>WIFI_CONNECT_TIMEOUT\<close>;
  \<open>temp_text\<close> is the formatted sensor reading, \<open>None\<close> when the sensor is disconnected.
\<close>

record env =
  link_up :: "nat \<Rightarrow> bool"
  mqtt_ok :: bool
  wifi_connected :: bool
  wifi_ssid :: string
  wifi_ip :: string
  wifi_rssi :: int
  temp_text :: "string option"

fun connect_loop :: "env \<Rightarrow> string \<Rightarrow> string \<Rightarrow> nat \<Rightarrow> nat \<Rightarrow> state \<Rightarrow> bool \<times> state" where
  "connect_loop e ssid password attempt 0 s = (False, s)"
| "connect_loop e ssid password attempt (Suc n) s =
     (let s1 = emit (WiFiBegin ssid password) s in
      if link_up e attempt then (True, s1\<lparr>wifiProvisioned := True\<rparr>)
      else connect_loop e ssid password (attempt + 1) n s1)"

text \<open>
  \<^verbatim>\<open>connectWiFi\<close>: the loop \<^verbatim>\<open>for (attempt = 1; attempt <= retryAttempts; attempt++)\<close>.
\<close>

definition connectWiFi :: "env \<Rightarrow> string \<Rightarrow> string \<Rightarrow> int \<Rightarrow> state \<Rightarrow> bool \<times> state" where
  "connectWiFi e ssid password retryAttempts s =
     connect_loop e ssid password 1 (nat retryAttempts) s"

definition initBLEProvisioning :: "state \<Rightarrow> state" where
  "initBLEProvisioning s = (emit BLEStart s)\<lparr>bleActive := True\<rparr>"

definition stopBLEProvisioning :: "state \<Rightarrow> state" where
  "stopBLEProvisioning s =
     (if \<not> bleActive s then s else (emit BLEStop s)\<lparr>bleActive := False\<rparr>)"

definition isBLEProvisioningActive :: "state \<Rightarrow> bool" where
  "isBLEProvisioningActive s = bleActive s"

definition hasNewWiFiCredentials :: "state \<Rightarrow> bool" where
  "hasNewWiFiCredentials s = newCredentialsReceived s"

definition getBLEWiFiSSID :: "state \<Rightarrow> string option" where
  "getBLEWiFiSSID s =
     (if length (receivedSSID s) = 0 then None else Some (strncpy_term (receivedSSID s) 32))"

definition getBLEWiFiPassword :: "state \<Rightarrow> string option" where
  "getBLEWiFiPassword s =
     (if length (receivedPassword s) = 0 then None
      else Some (strncpy_term (receivedPassword s) 63))"

definition clearBLECredentials :: "state \<Rightarrow> state" where
  "clearBLECredentials s =
     s\<lparr>newCredentialsReceived := False, receivedSSID := [], receivedPassword := []\<rparr>"

text \<open>
  \<^verbatim>\<open>CharacteristicCallbacks::onWrite\<close>, as far as it changes the variables above. The
  objects of the BLE stack (server, characteristics, the status string, the scan result
  handed to the client) and the flag \<^verbatim>\<open>deviceConnected\<close> are not part of the state.
  The value written is a \<^verbatim>\<open>std::string\<close>; \<^verbatim>\<open>String(value.c_str())\<close> keeps its bytes
  before the first NUL, and the comparison with \<^verbatim>\<open>"clear_wifi"\<close> is over the whole
  value.
\<close>

datatype characteristic = SSID_CHAR | PASSWORD_CHAR | NETWORKS_CHAR | COMMAND_CHAR

fun onWrite :: "characteristic \<Rightarrow> string \<Rightarrow> state \<Rightarrow> state" where
  "onWrite SSID_CHAR v s = s\<lparr>receivedSSID := c_str v\<rparr>"
| "onWrite PASSWORD_CHAR v s =
     (let s1 = s\<lparr>receivedPassword := c_str v\<rparr> in
      if length (receivedSSID s1) > 0 \<and> length (receivedPassword s1) > 0
      then s1\<lparr>newCredentialsReceived := True\<rparr> else s1)"
| "onWrite NETWORKS_CHAR v s = s"
| "onWrite COMMAND_CHAR v s =
     (if v = ''clear_wifi'' then s\<lparr>clearWiFiRequested := True\<rparr> else s)"

definition wifi_quality :: "int \<Rightarrow> string" where
  "wifi_quality rssi =
     (if rssi \<ge> -50 then ''excellent''
      else if rssi \<ge> -60 then ''good''
      else if rssi \<ge> -70 then ''fair''
      else ''weak'')"

definition publishWiFiState :: "env \<Rightarrow> state \<Rightarrow> state" where
  \<open>publishWiFiState e s =
     (if \<not> wifi_connected e then mqtt_publish TOPIC_WIFI_STATE STATUS_DISCONNECTED True s
      else
        let json = ''{'' @ ''"status":"connected",'' @
                   ''"ssid":"'' @ wifi_ssid e @ ''",'' @
                   ''"ip":"'' @ wifi_ip e @ ''",'' @
                   ''"rssi":'' @ String_of_int (wifi_rssi e) @ '','' @
                   ''"quality":"'' @ wifi_quality (wifi_rssi e) @ ''"'' @
                   ''}''
        in mqtt_publish TOPIC_WIFI_STATE json True s)\<close>

definition publishTemperature :: "env \<Rightarrow> state \<Rightarrow> state" where
  "publishTemperature e s =
     (case temp_text e of
        None \<Rightarrow> s
      | Some tempStr \<Rightarrow> mqtt_publish TOPIC_TEMP_STATE tempStr True s)"

definition connectMqtt :: "env \<Rightarrow> state \<Rightarrow> bool \<times> state" where
  "connectMqtt e s =
     (let s0 = emit MqttConnect s in
      if \<not> mqtt_ok e then (False, s0)
      else
        let s1 = emit (MqttSubscribe TOPIC_PUMP_SET) s0;
            s2 = emit (MqttSubscribe TOPIC_VALVE_SET) s1;
            s3 = emit (MqttSubscribe TOPIC_TIMER_SET) s2;
            s4 = emit (MqttSubscribe TOPIC_WIFI_CLEAR) s3;
            s5 = publishPumpState s4;
            s6 = publishValveState s5;
            s7 = publishWiFiState e s6;
            s8 = publishTimerState s7;
            s9 = publishTemperature e s8
        in (True, s9))"

text \<open>
  The BLE branch of \<^verbatim>\<open>loop()\<close>: everything from \<^verbatim>\<open>if (isBLEProvisioningActive())\<close>
  to the \<^verbatim>\<open>return\<close> that ends it. The call \<^verbatim>\<open>connectWiFi(ssid, password)\<close> there
  leaves \<^verbatim>\<open>retryAttempts\<close> at its default, \<^verbatim>\<open>WIFI_RETRY_ATTEMPTS\<close>. Of the
  initialisation after a successful connection, \<^verbatim>\<open>connectMqtt\<close> is modelled;
  \<^verbatim>\<open>syncTimeNTP\<close> and \<^verbatim>\<open>setupMqtt\<close> touch none of the state. When BLE is not
  active the normal operations run, which this function leaves to its caller.
\<close>

definition loop_ble :: "env \<Rightarrow> u32 \<Rightarrow> state \<Rightarrow> state" where
  "loop_ble e now s =
     (if \<not> isBLEProvisioningActive s then s
      else if \<not> (now - lastBLECheck s > BLE_CHECK_INTERVAL) then s
      else
        let s1 = s\<lparr>lastBLECheck := now\<rparr> in
        if \<not> hasNewWiFiCredentials s1 then s1
        else
          case getBLEWiFiSSID s1 of
            None \<Rightarrow> s1
          | Some ssid \<Rightarrow>
              (case getBLEWiFiPassword s1 of
                 None \<Rightarrow> s1
               | Some password \<Rightarrow>
                   let s2 = stopBLEProvisioning s1;
                       (ok, s3) = connectWiFi e ssid password WIFI_RETRY_ATTEMPTS s2
                   in if ok then
                        snd (connectMqtt e (clearBLECredentials (saveWiFiCredentials ssid password s3)))
                      else initBLEProvisioning (clearBLECredentials s3)))"

text \<open>
  \<^verbatim>\<open>initWiFiProvisioning\<close>: reconnect with the saved credentials, or start BLE
  provisioning.
\<close>

definition initWiFiProvisioning :: "env \<Rightarrow> state \<Rightarrow> bool \<times> state" where
  "initWiFiProvisioning e s =
     (case loadWiFiCredentials s of
        None \<Rightarrow> (False, initBLEProvisioning s)
      | Some (ssid, password) \<Rightarrow>
          let (ok, s1) = connectWiFi e ssid password WIFI_RETRY_ATTEMPTS s in
          if ok then (True, s1) else (False, initBLEProvisioning s1))"

subsection \<open>Network scan\<close>

record network =
  net_ssid :: string
  net_rssi :: int
  net_encryption :: nat

abbreviation (input) WIFI_AUTH_OPEN :: nat where "WIFI_AUTH_OPEN \<equiv> 0"

text \<open>
  What \<^verbatim>\<open>WiFi.scanNetworks()\<close> returns: the number of networks found, \<open>-1\<close> while a
  scan is running, \<open>-2\<close> when it failed.
\<close>

datatype scan_result = ScanRunning | ScanFailed | ScanDone "network list"

fun scanNetworks :: "scan_result \<Rightarrow> int" where
  "scanNetworks ScanRunning = -1"
| "scanNetworks ScanFailed = -2"
| "scanNetworks (ScanDone ns) = int (length ns)"

fun found :: "scan_result \<Rightarrow> network list" where
  "found (ScanDone ns) = ns"
| "found _ = []"

definition scan_entry :: "network \<Rightarrow> string" where
  \<open>scan_entry n =
     ''{"ssid":"'' @ net_ssid n @ ''","rssi":'' @ String_of_int (net_rssi n) @
     '',"open":'' @ (if net_encryption n = WIFI_AUTH_OPEN then ''true'' else ''false'') @ ''}''\<close>

text \<open>The \<^verbatim>\<open>for\<close> loop of \<^verbatim>\<open>scanWiFiNetworks\<close>, with its \<^verbatim>\<open>continue\<close> and \<^verbatim>\<open>break\<close>.\<close>

fun scan_loop :: "network list \<Rightarrow> string \<Rightarrow> nat \<Rightarrow> string" where
  "scan_loop [] json networkCount = json"
| "scan_loop (n # ns) json networkCount =
     (if length (net_ssid n) = 0 then scan_loop ns json networkCount
      else
        let entry = scan_entry n;
            projectedSize = length json + length entry + (if networkCount > 0 then 1 else 0) + 1
        in if projectedSize > 400 then json
           else scan_loop ns (json @ (if networkCount > 0 then '','' else []) @ entry)
                  (networkCount + 1))"

definition scanWiFiNetworks :: "scan_result \<Rightarrow> string" where
  "scanWiFiNetworks r =
     (let numNetworks = scanNetworks r in
      if numNetworks = 0 \<or> numNetworks = -1 then ''[]''
      else scan_loop (take (nat numNetworks) (found r)) ''['' 0 @ '']'')"

section \<open>Observations on states and traces\<close>

text \<open>What an observer of the relays and of the MQTT channel sees of a trace.\<close>

definition valve_relay_writes :: "event list \<Rightarrow> nat" where
  "valve_relay_writes tr =
     length (filter (\<lambda>e. case e of DigitalWrite p v \<Rightarrow> p = VALVE_RELAY_PIN | _ \<Rightarrow> False) tr)"

definition pump_relay_writes :: "event list \<Rightarrow> bool list" where
  "pump_relay_writes tr =
     concat (map (\<lambda>e. case e of DigitalWrite p v \<Rightarrow> (if p = PUMP_RELAY_PIN then [v] else [])
                          | _ \<Rightarrow> []) tr)"

definition valve_snapshots :: "event list \<Rightarrow> string list" where
  "valve_snapshots tr =
     concat (map (\<lambda>e. case e of MqttPublish t p r \<Rightarrow> (if t = TOPIC_VALVE_STATE then [p] else [])
                          | _ \<Rightarrow> []) tr)"

definition timer_snapshots :: "event list \<Rightarrow> string list" where
  "timer_snapshots tr =
     concat (map (\<lambda>e. case e of MqttPublish t p r \<Rightarrow> (if t = TOPIC_TIMER_STATE then [p] else [])
                          | _ \<Rightarrow> []) tr)"

text \<open>The whole seconds \<^verbatim>\<open>updateTimer\<close> computes at time \<open>now\<close>.\<close>

definition elapsed_seconds :: "u32 \<Rightarrow> state \<Rightarrow> u32" where
  "elapsed_seconds now s = (now - timerLastUpdate s) div 1000"

text \<open>\<open>n\<close> calls of \<^verbatim>\<open>updateTimer\<close>, one second apart, the first one second after \<open>t\<close>.\<close>

fun run_ticks :: "nat \<Rightarrow> u32 \<Rightarrow> state \<Rightarrow> state" where
  "run_ticks 0 t s = s"
| "run_ticks (Suc n) t s = run_ticks n (t + 1000) (updateTimer (t + 1000) s)"

text \<open>What a subscriber and the pump see of the timer.\<close>

definition observable :: "state \<Rightarrow> bool \<times> bool \<times> int \<times> string" where
  "observable s = (timerActive s, pumpState s, valveMode s, timer_json s)"

text \<open>A timer of five seconds in mode 1, started at time 0 and ticked once a second.\<close>

definition started :: state where
  "started = startTimer 1 5 0 boot_state"

definition five_ticks :: state where
  "five_ticks = updateTimer 5000 (updateTimer 4000 (updateTimer 3000 (updateTimer 2000
     (updateTimer 1000 started))))"

text \<open>
  The states the firmware can be in: the boot state over any content of the key-value
  store, and whatever an operation of the model makes of such a state, with any
  arguments and any answers of the environment.
\<close>

inductive reachable :: "state \<Rightarrow> bool" where
  boot: "reachable (boot_state\<lparr>nvs := m\<rparr>)"
| r_setPumpRelay: "reachable s \<Longrightarrow> reachable (setPumpRelay b s)"
| r_setValveRelay: "reachable s \<Longrightarrow> reachable (setValveRelay m s)"
| r_setPumpState: "reachable s \<Longrightarrow> reachable (setPumpState b s)"
| r_setValveMode: "reachable s \<Longrightarrow> reachable (setValveMode m s)"
| r_startTimer: "reachable s \<Longrightarrow> reachable (startTimer m d now s)"
| r_stopTimer: "reachable s \<Longrightarrow> reachable (stopTimer s)"
| r_updateTimer: "reachable s \<Longrightarrow> reachable (updateTimer now s)"
| r_onMqttMessage: "reachable s \<Longrightarrow> reachable (onMqttMessage topic payload now s)"
| r_publishPumpState: "reachable s \<Longrightarrow> reachable (publishPumpState s)"
| r_publishValveState: "reachable s \<Longrightarrow> reachable (publishValveState s)"
| r_publishTimerState: "reachable s \<Longrightarrow> reachable (publishTimerState s)"
| r_publishWiFiState: "reachable s \<Longrightarrow> reachable (publishWiFiState e s)"
| r_publishTemperature: "reachable s \<Longrightarrow> reachable (publishTemperature e s)"
| r_saveWiFiCredentials: "reachable s \<Longrightarrow> reachable (saveWiFiCredentials ssid password s)"
| r_clearWiFiCredentials: "reachable s \<Longrightarrow> reachable (clearWiFiCredentials s)"
| r_connectWiFi: "reachable s \<Longrightarrow> reachable (snd (connectWiFi e ssid password n s))"
| r_connectMqtt: "reachable s \<Longrightarrow> reachable (snd (connectMqtt e s))"
| r_initBLEProvisioning: "reachable s \<Longrightarrow> reachable (initBLEProvisioning s)"
| r_stopBLEProvisioning: "reachable s \<Longrightarrow> reachable (stopBLEProvisioning s)"
| r_clearBLECredentials: "reachable s \<Longrightarrow> reachable (clearBLECredentials s)"
| r_onWrite: "reachable s \<Longrightarrow> reachable (onWrite c v s)"
| r_loop_ble: "reachable s \<Longrightarrow> reachable (loop_ble e now s)"
| r_initWiFiProvisioning: "reachable s \<Longrightarrow> reachable (snd (initWiFiProvisioning e s))"

fun valve_payload_ok :: "event \<Rightarrow> bool" where
  "valve_payload_ok (MqttPublish t p r) = (t \<noteq> TOPIC_VALVE_STATE \<or> p = ''1'' \<or> p = ''2'')"
| "valve_payload_ok _ = True"

definition modes_ok :: "state \<Rightarrow> bool" where
  "modes_ok s =
     ((valveMode s = 1 \<or> valveMode s = 2) \<and> (timerMode s = 1 \<or> timerMode s = 2)
      \<and> list_all valve_payload_ok (trace s))"

definition sample_reachable :: state where
  "sample_reachable = onMqttMessage TOPIC_VALVE_SET ''toggle'' 0 boot_state"

text \<open>
  The BLE branch of \<^verbatim>\<open>loop()\<close> is about to consume a pending credential pair; every
  attempt of the \<^verbatim>\<open>connectWiFi\<close> call it makes fails.
\<close>

definition pending_ready :: "u32 \<Rightarrow> state \<Rightarrow> bool" where
  "pending_ready now s =
     (bleActive s \<and> now - lastBLECheck s > BLE_CHECK_INTERVAL \<and> newCredentialsReceived s
      \<and> receivedSSID s \<noteq> [] \<and> receivedPassword s \<noteq> [])"

definition all_attempts_fail :: "env \<Rightarrow> bool" where
  "all_attempts_fail e = (\<not> link_up e 1 \<and> \<not> link_up e 2 \<and> \<not> link_up e 3)"

definition flaky_env :: env where
  "flaky_env = \<lparr> link_up = (\<lambda>k. k = 2), mqtt_ok = False, wifi_connected = True,
     wifi_ssid = ''cafe'', wifi_ip = ''10.0.0.7'', wifi_rssi = -55, temp_text = None \<rparr>"

definition dead_env :: env where
  "dead_env = \<lparr> link_up = (\<lambda>k. False), mqtt_ok = False, wifi_connected = False,
     wifi_ssid = [], wifi_ip = [], wifi_rssi = 0, temp_text = None \<rparr>"

definition provisioning_state :: state where
  "provisioning_state = boot_state \<lparr> nvs := [''ssid'' \<mapsto> ''home'', ''password'' \<mapsto> ''pw1''],
     bleActive := True, newCredentialsReceived := True, receivedSSID := ''cafe'',
     receivedPassword := ''pw2'' \<rparr>"

subsection \<open>Well-formed JSON text\<close>

text \<open>
  The grammar of RFC 8259 as a recogniser; it is what the scan listing is measured
  against, not a part of the firmware. Each function returns the input that is left
  after the construct it recognises. \<open>json_value\<close> takes fuel for the nesting and the
  sequences; a text never needs more than its length.
\<close>

definition json_ws :: "char \<Rightarrow> bool" where
  "json_ws c = (c \<in> set [CHR '' '', CHR 0x09, CHR 0x0A, CHR 0x0D])"

definition json_hex :: "char \<Rightarrow> bool" where
  "json_hex c = (c \<in> set ''0123456789abcdefABCDEF'')"

definition json_escape :: "char \<Rightarrow> bool" where
  "json_escape c =
     (c \<in> set [CHR 0x22, CHR 0x5C, CHR ''/'', CHR ''b'', CHR ''f'', CHR ''n'', CHR ''r'', CHR ''t''])"

definition skip_ws :: "string \<Rightarrow> string" where
  "skip_ws s = dropWhile json_ws s"

text \<open>The characters of a string after its opening quote, through the closing quote.\<close>

fun json_chars :: "string \<Rightarrow> string option" where
  "json_chars [] = None"
| "json_chars (c # cs) =
     (if c = CHR 0x22 then Some cs
      else if c = CHR 0x5C then
        (case cs of
           [] \<Rightarrow> None
         | x # r \<Rightarrow>
             if json_escape x then json_chars r
             else if x = CHR ''u'' then
               (if length r \<ge> 4 \<and> list_all json_hex (take 4 r) then json_chars (drop 4 r)
                else None)
             else None)
      else if (of_char c :: nat) < 32 then None
      else json_chars cs)"

definition json_exponent :: "string \<Rightarrow> string option" where
  "json_exponent s =
     (case s of
        [] \<Rightarrow> Some s
      | c # r \<Rightarrow>
          if c = CHR ''e'' \<or> c = CHR ''E'' then
            (let r1 = (case r of [] \<Rightarrow> r
                       | x # r2 \<Rightarrow> if x = CHR ''+'' \<or> x = CHR ''-'' then r2 else r)
             in if r1 \<noteq> [] \<and> isdigit (hd r1) then Some (dropWhile isdigit r1) else None)
          else Some s)"

definition json_fraction :: "string \<Rightarrow> string option" where
  "json_fraction s =
     (case s of
        [] \<Rightarrow> Some s
      | c # r \<Rightarrow>
          if c = CHR ''.'' then
            (if r \<noteq> [] \<and> isdigit (hd r) then json_exponent (dropWhile isdigit r) else None)
          else json_exponent s)"

definition json_number :: "string \<Rightarrow> string option" where
  "json_number s =
     (let s1 = (case s of [] \<Rightarrow> s | c # r \<Rightarrow> if c = CHR ''-'' then r else s) in
      case s1 of
        [] \<Rightarrow> None
      | c # r \<Rightarrow>
          if c = CHR ''0'' then json_fraction r
          else if isdigit c then json_fraction (dropWhile isdigit r)
          else None)"

fun json_value :: "nat \<Rightarrow> string \<Rightarrow> string option"
  and json_elements :: "nat \<Rightarrow> string \<Rightarrow> string option"
  and json_members :: "nat \<Rightarrow> string \<Rightarrow> string option" where
  "json_value 0 s = None"
| "json_value (Suc n) s =
     (case s of
        [] \<Rightarrow> None
      | c # r \<Rightarrow>
          if c = CHR ''{'' then
            (case skip_ws r of
               [] \<Rightarrow> None
             | x # r1 \<Rightarrow> if x = CHR ''}'' then Some r1 else json_members n (x # r1))
          else if c = CHR ''['' then
            (case skip_ws r of
               [] \<Rightarrow> None
             | x # r1 \<Rightarrow> if x = CHR '']'' then Some r1 else json_elements n (x # r1))
          else if c = CHR 0x22 then json_chars r
          else if c = CHR ''-'' \<or> isdigit c then json_number s
          else if prefix ''true'' s then Some (drop 4 s)
          else if prefix ''false'' s then Some (drop 5 s)
          else if prefix ''null'' s then Some (drop 4 s)
          else None)"
| "json_elements 0 s = None"
| "json_elements (Suc n) s =
     (case json_value n s of
        None \<Rightarrow> None
      | Some r \<Rightarrow>
          (case skip_ws r of
             [] \<Rightarrow> None
           | x # r1 \<Rightarrow>
               if x = CHR '','' then json_elements n (skip_ws r1)
               else if x = CHR '']'' then Some r1
               else None))"
| "json_members 0 s = None"
| "json_members (Suc n) s =
     (case s of
        [] \<Rightarrow> None
      | q # r \<Rightarrow>
          if q \<noteq> CHR 0x22 then None
          else
            (case json_chars r of
               None \<Rightarrow> None
             | Some r1 \<Rightarrow>
                 (case skip_ws r1 of
                    [] \<Rightarrow> None
                  | x # r2 \<Rightarrow>
                      if x \<noteq> CHR '':'' then None
                      else
                        (case json_value n (skip_ws r2) of
                           None \<Rightarrow> None
                         | Some r3 \<Rightarrow>
                             (case skip_ws r3 of
                                [] \<Rightarrow> None
                              | y # r4 \<Rightarrow>
                                  if y = CHR '','' then json_members n (skip_ws r4)
                                  else if y = CHR ''}'' then Some r4
                                  else None)))))"

definition json_wellformed :: "string \<Rightarrow> bool" where
  "json_wellformed s =
     (case json_value (Suc (length s)) (skip_ws s) of
        None \<Rightarrow> False
      | Some r \<Rightarrow> skip_ws r = [])"

subsection \<open>The shape of a scan listing\<close>

text \<open>Whole entries, separated by commas: the body of a listing of the given networks.\<close>

fun listing_body :: "network list \<Rightarrow> string" where
  "listing_body [] = []"
| "listing_body [n] = scan_entry n"
| "listing_body (n # m # ns) = scan_entry n @ '','' @ listing_body (m # ns)"

definition named :: "network list \<Rightarrow> network list" where
  "named ns = filter (\<lambda>n. net_ssid n \<noteq> []) ns"

text \<open>The listing of every named network, with no budget.\<close>

definition full_listing :: "network list \<Rightarrow> string" where
  "full_listing ns = ''['' @ listing_body (named ns) @ '']''"

text \<open>
  A name that can stand between double quotes as it is: no double quote, no backslash,
  no control character.
\<close>

definition plain_char :: "char \<Rightarrow> bool" where
  "plain_char c = (c \<noteq> CHR 0x22 \<and> c \<noteq> CHR 0x5C \<and> \<not> (of_char c :: nat) < 32)"

definition plain_names :: "network list \<Rightarrow> bool" where
  "plain_names ns = list_all (\<lambda>n. list_all plain_char (net_ssid n)) ns"

definition quoted_ap :: network where
  \<open>quoted_ap = \<lparr> net_ssid = ''Bob"s WiFi'', net_rssi = -48, net_encryption = 0 \<rparr>\<close>

definition plain_ap :: network where
  "plain_ap = \<lparr> net_ssid = ''Living Room Access Point 2.4GHz'', net_rssi = -60,
     net_encryption = 3 \<rparr>"

definition crowded_scan :: "network list" where
  "crowded_scan =
     [quoted_ap, plain_ap, plain_ap, plain_ap, plain_ap, plain_ap, plain_ap, plain_ap]"

section \<open>Evaluation lemmas\<close>

lemma String_of_nat_numeral [simp]:
  "String_of_nat (numeral k) =
     (if (numeral k :: nat) < 10 then [digit_char (numeral k)]
      else String_of_nat (numeral k div 10) @ [digit_char (numeral k mod 10)])"
  by (rule String_of_nat.simps)

lemma String_of_nat_0 [simp]: "String_of_nat 0 = ''0''"
  by (simp add: String_of_nat.simps digit_char_def)

lemma String_of_nat_1 [simp]: "String_of_nat (Suc 0) = ''1''"
  by (simp add: String_of_nat.simps digit_char_def)

lemma String_of_int_neg_numeral [simp]:
  "String_of_int (- numeral k) = CHR ''-'' # String_of_nat (numeral k)"
  by (simp add: String_of_int_def)

lemma char_of_49: "char_of (49::int) = CHR ''1''"
  by code_simp

lemma char_of_50: "char_of (50::int) = CHR ''2''"
  by code_simp

lemma valve_msg_1: "valveMode s = 1 \<Longrightarrow> valve_msg s = ''1''"
  by (simp add: valve_msg_def char_of_49)

lemma valve_msg_2: "valveMode s = 2 \<Longrightarrow> valve_msg s = ''2''"
  by (simp add: valve_msg_def char_of_50)

lemmas timer_defs = startTimer_def stopTimer_def updateTimer_def setPumpState_def
  setPumpRelay_def setValveMode_def setValveRelay_def publishPumpState_def
  publishValveState_def publishTimerState_def mqtt_publish_def emit_def

lemmas json_defs = json_wellformed_def skip_ws_def json_ws_def json_number_def
  json_fraction_def json_exponent_def isdigit_def json_escape_def json_hex_def

section \<open>Payloads with a NUL byte\<close>

text \<open>
  The command comparisons are \<^verbatim>\<open>strcmp\<close>: the pump command \<^verbatim>\<open>on\<close> followed by a NUL
  byte and anything else still turns the pump on. A value written over BLE is kept up to
  its first NUL.
\<close>

lemma pump_on_with_trailing_nul:
  "onMqttMessage TOPIC_PUMP_SET (''on'' @ [CHR 0x00] @ ''x'') now s = setPumpState True s"
  by (simp add: onMqttMessage_def payloadToString_def trim_def isspace_def toupper_def
      String_equals_def c_str_def Let_def)

lemma onWrite_keeps_c_str:
  "receivedSSID (onWrite SSID_CHAR (''home'' @ [CHR 0x00] @ ''x'') s) = ''home''"
  by (simp add: c_str_def)

section \<open>The timer command never parses\<close>

text \<open>
  \<^verbatim>\<open>onMqttMessage\<close> upper-cases the payload before it looks for the keys
  \<^verbatim>\<open>"mode":\<close> and \<^verbatim>\<open>"duration":\<close>, which are written in lower case, and
  \<^verbatim>\<open>indexOf\<close> compares bytes.
\<close>

lemma toupper_ne_m: "toupper c \<noteq> CHR ''m''"
  by (auto simp: toupper_def split: option.splits if_splits)

lemma strstr_Some_prefix: "strstr h n = Some k \<Longrightarrow> prefix n (drop k h)"
  by (induction h arbitrary: k) (auto split: if_splits)

lemma prefix_mode_has_m:
  assumes \<open>prefix ''"mode":'' xs\<close>
  shows "CHR ''m'' \<in> set xs"
proof -
  from assms obtain zs where \<open>xs = ''"mode":'' @ zs\<close>
    by (auto simp: prefix_def)
  then show ?thesis by simp
qed

lemma strstr_mode_None:
  assumes "CHR ''m'' \<notin> set h"
  shows \<open>strstr h ''"mode":'' = None\<close>
proof (cases \<open>strstr h ''"mode":''\<close>)
  case None
  then show ?thesis .
next
  case (Some k)
  then have \<open>prefix ''"mode":'' (drop k h)\<close>
    by (rule strstr_Some_prefix)
  then have "CHR ''m'' \<in> set (drop k h)"
    by (rule prefix_mode_has_m)
  then have "CHR ''m'' \<in> set h"
    by (meson in_set_dropD)
  with assms show ?thesis by simp
qed

lemma c_str_toUpperCase_no_m: "CHR ''m'' \<notin> set (c_str (toUpperCase x))"
  by (induction x) (simp_all add: c_str_def toupper_ne_m [symmetric])

lemma indexOf_mode_upper: \<open>indexOf (toUpperCase x) ''"mode":'' = -1\<close>
proof -
  have \<open>strstr (c_str (toUpperCase x)) ''"mode":'' = None\<close>
    using c_str_toUpperCase_no_m by (rule strstr_mode_None)
  then show ?thesis
    by (simp add: indexOf_def indexOfFrom_def to_unsigned_def Let_def)
qed

lemma timer_command_never_parses: "onMqttMessage TOPIC_TIMER_SET payload now s = s"
  by (simp add: onMqttMessage_def timer_command_def indexOf_mode_upper Let_def)

text \<open>
  Claim C1. A message on the timer-set topic with the payload
  \<^verbatim>\<open>{"mode":1,"duration":5}\<close>, delivered while the timer is idle, should start the timer
  and lead to one stop snapshot within five seconds. The handler drops the message: the
  state, and with it the trace, is what it was, so the timer is not started and no
  snapshot is published.
\<close>

theorem timer_set_message_is_dropped:
  \<open>onMqttMessage TOPIC_TIMER_SET ''{"mode":1,"duration":5}'' now s = s\<close>
  by (simp add: onMqttMessage_def timer_command_def payloadToString_def trim_def isspace_def
      toupper_def c_str_def indexOf_def indexOfFrom_def to_unsigned_def Let_def)

section \<open>The timer tick\<close>



lemma tick_dec:
  "timerActive s \<Longrightarrow> elapsed_seconds now s \<ge> 1 \<Longrightarrow> timerRemaining s > 0 \<Longrightarrow>
   timerRemaining (updateTimer now s) = timerRemaining s - 1 \<and> timerActive (updateTimer now s)
   \<and> pumpState (updateTimer now s) = pumpState s
   \<and> pump_relay_writes (trace (updateTimer now s)) = pump_relay_writes (trace s)
   \<and> timerLastUpdate (updateTimer now s) = now"
  by (auto simp add: updateTimer_def elapsed_seconds_def Let_def publishTimerState_def
      mqtt_publish_def emit_def pump_relay_writes_def)

lemma tick_frame:
  "timerActive s \<Longrightarrow> timerRemaining s > 0 \<Longrightarrow>
   timerMode (updateTimer now s) = timerMode s
   \<and> timerDuration (updateTimer now s) = timerDuration s
   \<and> valveMode (updateTimer now s) = valveMode s
   \<and> pumpState (updateTimer now s) = pumpState s
   \<and> timerActive (updateTimer now s)
   \<and> pump_relay_writes (trace (updateTimer now s)) = pump_relay_writes (trace s)"
  by (auto simp add: updateTimer_def Let_def publishTimerState_def mqtt_publish_def emit_def
      pump_relay_writes_def)

lemma tick_stop:
  "timerActive s \<Longrightarrow> elapsed_seconds now s \<ge> 1 \<Longrightarrow> timerRemaining s = 0 \<Longrightarrow>
   updateTimer now s = stopTimer (s\<lparr>timerLastUpdate := now\<rparr>)"
  by (auto simp add: updateTimer_def elapsed_seconds_def Let_def)

lemma stop_turns_pump_off:
  "timerActive s \<Longrightarrow>
   \<not> pumpState (stopTimer s) \<and> \<not> timerActive (stopTimer s) \<and> timerRemaining (stopTimer s) = 0
   \<and> pump_relay_writes (trace (stopTimer s)) = pump_relay_writes (trace s) @ [False]
   \<and> timer_snapshots (trace (stopTimer s)) = timer_snapshots (trace s) @ [timer_json (stopTimer s)]"
  by (simp add: timer_defs Let_def pump_relay_writes_def timer_snapshots_def timer_json_def)



text \<open>
  Claim C2. After \<^verbatim>\<open>startTimer(m, d)\<close>, ticks advanced by \<open>d\<close> seconds should leave
  the timer inactive, the pump off and one terminal snapshot, as \<^verbatim>\<open>stopTimer()\<close>
  does. For \<open>m = 1\<close>, \<open>d = 5\<close> and one tick a second the firmware is, after five
  seconds, still active with the pump on, and the last snapshot it published says
  \<^verbatim>\<open>"active":true,"remaining":0\<close>; the pump is turned off by the sixth tick.
\<close>

theorem timer_still_running_after_duration:
  \<open>timerActive five_ticks \<and> pumpState five_ticks \<and> timerRemaining five_ticks = 0
   \<and> pump_relay_writes (trace five_ticks) = [True]
   \<and> last (timer_snapshots (trace five_ticks)) =
        ''{"active":true,"remaining":0,"mode":1,"duration":5}''
   \<and> \<not> timerActive (stopTimer started) \<and> \<not> pumpState (stopTimer started)
   \<and> \<not> timerActive (updateTimer 6000 five_ticks) \<and> \<not> pumpState (updateTimer 6000 five_ticks)
   \<and> last (timer_snapshots (trace (updateTimer 6000 five_ticks))) =
        ''{"active":false,"remaining":0,"mode":1,"duration":5}''\<close>
  by (simp add: five_ticks_def started_def timer_defs boot_state_def Let_def
      pump_relay_writes_def timer_snapshots_def timer_json_def String_of_int_def digit_char_def)




section \<open>Expiry and explicit stop\<close>

text \<open>
  With one tick a second the countdown of a timer started with duration \<open>d\<close> reaches
  0 at the tick number \<open>d\<close>, where the timer is still active and the pump on; the
  tick after it is \<^verbatim>\<open>stopTimer()\<close>, and what a subscriber and the pump see then is what
  they see of \<^verbatim>\<open>stopTimer()\<close> called right after the start.
\<close>

lemma elapsed_one: "timerLastUpdate s = t \<Longrightarrow> elapsed_seconds (t + 1000) s = 1"
  by (simp add: elapsed_seconds_def)

lemma run_ticks_countdown:
  "timerActive s \<Longrightarrow> timerLastUpdate s = t \<Longrightarrow> n \<le> unat (timerRemaining s) \<Longrightarrow>
   timerActive (run_ticks n t s) \<and> pumpState (run_ticks n t s) = pumpState s
   \<and> timerRemaining (run_ticks n t s) = timerRemaining s - of_nat n
   \<and> timerLastUpdate (run_ticks n t s) = t + 1000 * of_nat n
   \<and> timerMode (run_ticks n t s) = timerMode s
   \<and> timerDuration (run_ticks n t s) = timerDuration s
   \<and> valveMode (run_ticks n t s) = valveMode s
   \<and> pump_relay_writes (trace (run_ticks n t s)) = pump_relay_writes (trace s)"
proof (induction n arbitrary: s t)
  case 0
  then show ?case by simp
next
  case (Suc n)
  let ?s1 = "updateTimer (t + 1000) s"
  from Suc.prems have "unat (timerRemaining s) \<noteq> 0" by simp
  then have pos: "timerRemaining s > 0"
    by (simp add: word_greater_zero_iff unat_eq_0)
  have el: "elapsed_seconds (t + 1000) s \<ge> 1"
    using elapsed_one [OF Suc.prems(2)] by simp
  have d1: "timerRemaining ?s1 = timerRemaining s - 1" "timerActive ?s1"
    "pumpState ?s1 = pumpState s" "pump_relay_writes (trace ?s1) = pump_relay_writes (trace s)"
    "timerLastUpdate ?s1 = t + 1000"
    using tick_dec [OF Suc.prems(1) el pos] by simp_all
  have d2: "timerMode ?s1 = timerMode s" "timerDuration ?s1 = timerDuration s"
    "valveMode ?s1 = valveMode s"
    using tick_frame [OF Suc.prems(1) pos, of "t + 1000"] by simp_all
  have le: "n \<le> unat (timerRemaining ?s1)"
    using Suc.prems(3) pos by (simp add: d1 unat_minus_one word_neq_0_conv)
  have ih: "timerActive (run_ticks n (t + 1000) ?s1)
   \<and> pumpState (run_ticks n (t + 1000) ?s1) = pumpState ?s1
   \<and> timerRemaining (run_ticks n (t + 1000) ?s1) = timerRemaining ?s1 - of_nat n
   \<and> timerLastUpdate (run_ticks n (t + 1000) ?s1) = (t + 1000) + 1000 * of_nat n
   \<and> timerMode (run_ticks n (t + 1000) ?s1) = timerMode ?s1
   \<and> timerDuration (run_ticks n (t + 1000) ?s1) = timerDuration ?s1
   \<and> valveMode (run_ticks n (t + 1000) ?s1) = valveMode ?s1
   \<and> pump_relay_writes (trace (run_ticks n (t + 1000) ?s1)) = pump_relay_writes (trace ?s1)"
    by (rule Suc.IH [OF d1(2) d1(5) le])
  show ?case using ih by (simp add: d1 d2 algebra_simps)
qed

lemma run_ticks_last:
  "run_ticks (Suc n) t s = updateTimer (t + 1000 * of_nat (Suc n)) (run_ticks n t s)"
proof (induction n arbitrary: t s)
  case 0
  show ?case by simp
next
  case (Suc n)
  have "run_ticks (Suc (Suc n)) t s = run_ticks (Suc n) (t + 1000) (updateTimer (t + 1000) s)"
    by simp
  also have "\<dots> = updateTimer ((t + 1000) + 1000 * of_nat (Suc n))
                    (run_ticks n (t + 1000) (updateTimer (t + 1000) s))"
    by (rule Suc.IH)
  finally show ?case by (simp add: algebra_simps)
qed

lemma start_running:
  assumes "m = 1 \<or> m = 2" and "d \<noteq> 0"
  shows "timerActive (startTimer m d now s) \<and> pumpState (startTimer m d now s)
    \<and> timerRemaining (startTimer m d now s) = d \<and> timerDuration (startTimer m d now s) = d
    \<and> timerMode (startTimer m d now s) = m \<and> valveMode (startTimer m d now s) = m
    \<and> timerLastUpdate (startTimer m d now s) = now"
  using assms by (auto simp: timer_defs Let_def)

lemma observable_stop:
  "timerActive x \<Longrightarrow>
   observable (stopTimer x) =
     (False, False, valveMode x,
      timer_json (x\<lparr>timerActive := False, timerRemaining := 0\<rparr>))"
  by (simp add: observable_def timer_defs Let_def timer_json_def)

lemma timer_json_cong:
  "timerActive x = timerActive y \<Longrightarrow> timerRemaining x = timerRemaining y \<Longrightarrow>
   timerMode x = timerMode y \<Longrightarrow> timerDuration x = timerDuration y \<Longrightarrow>
   timer_json x = timer_json y"
  by (simp add: timer_json_def)

lemma expiry_converges_one_tick_late:
  assumes m: "m = 1 \<or> m = 2" and d: "d \<noteq> 0"
  shows "timerActive (run_ticks (unat d) now (startTimer m d now s))
    \<and> pumpState (run_ticks (unat d) now (startTimer m d now s))
    \<and> timerRemaining (run_ticks (unat d) now (startTimer m d now s)) = 0
    \<and> observable (run_ticks (Suc (unat d)) now (startTimer m d now s))
         = observable (stopTimer (startTimer m d now s))
    \<and> pump_relay_writes (trace (run_ticks (Suc (unat d)) now (startTimer m d now s)))
         = pump_relay_writes (trace (startTimer m d now s)) @ [False]"
proof -
  let ?s0 = "startTimer m d now s"
  let ?sd = "run_ticks (unat d) now ?s0"
  let ?t = "now + 1000 * of_nat (Suc (unat d))"
  note st = start_running [OF m d, of now s]
  from st have le: "unat d \<le> unat (timerRemaining ?s0)" by simp
  have cd: "timerActive ?sd \<and> pumpState ?sd = pumpState ?s0
   \<and> timerRemaining ?sd = timerRemaining ?s0 - of_nat (unat d)
   \<and> timerLastUpdate ?sd = now + 1000 * of_nat (unat d)
   \<and> timerMode ?sd = timerMode ?s0
   \<and> timerDuration ?sd = timerDuration ?s0
   \<and> valveMode ?sd = valveMode ?s0
   \<and> pump_relay_writes (trace ?sd) = pump_relay_writes (trace ?s0)"
    by (rule run_ticks_countdown) (use st le in simp_all)
  then have rem0: "timerRemaining ?sd = 0" using st by simp
  have "?t = timerLastUpdate ?sd + 1000"
    using cd by (simp add: algebra_simps)
  then have "elapsed_seconds ?t ?sd = 1"
    by (simp only: elapsed_one)
  then have el: "elapsed_seconds ?t ?sd \<ge> 1"
    by simp
  have last: "run_ticks (Suc (unat d)) now ?s0 = stopTimer (?sd\<lparr>timerLastUpdate := ?t\<rparr>)"
    unfolding run_ticks_last using cd rem0 el by (simp add: tick_stop)
  have act: "timerActive (?sd\<lparr>timerLastUpdate := ?t\<rparr>)" using cd by simp
  have o1: "observable (run_ticks (Suc (unat d)) now ?s0) =
     (False, False, valveMode ?s0, timer_json (?s0\<lparr>timerActive := False, timerRemaining := 0\<rparr>))"
    unfolding last observable_stop [OF act] using cd
    by (auto intro!: timer_json_cong)
  have o2: "observable (stopTimer ?s0) =
     (False, False, valveMode ?s0, timer_json (?s0\<lparr>timerActive := False, timerRemaining := 0\<rparr>))"
    using st by (simp add: observable_stop)
  have w: "pump_relay_writes (trace (run_ticks (Suc (unat d)) now ?s0))
         = pump_relay_writes (trace ?s0) @ [False]"
    unfolding last using stop_turns_pump_off [OF act] cd by simp
  from cd st rem0 o1 o2 w show ?thesis by simp
qed

section \<open>Credential store\<close>

text \<open>
  Claim C5, amended. For every credential pair whose identifier is not empty and has at
  most 32 bytes and whose secret has at most 63 bytes, \<^verbatim>\<open>save\<close> followed by
  \<^verbatim>\<open>load\<close> returns the pair; \<^verbatim>\<open>clear\<close> followed by \<^verbatim>\<open>load\<close> returns none.
\<close>

theorem credential_roundtrip:
  assumes "ssid \<noteq> []" and "length ssid \<le> 32" and "length password \<le> 63"
  shows "loadWiFiCredentials (saveWiFiCredentials ssid password s) = Some (ssid, password)
    \<and> loadWiFiCredentials (clearWiFiCredentials s) = None"
  using assms
  by (simp add: loadWiFiCredentials_def saveWiFiCredentials_def clearWiFiCredentials_def
      getString_def strncpy_term_def emit_def)

theorem credential_roundtrip_witness:
  "loadWiFiCredentials (saveWiFiCredentials ''home'' ''pw1'' boot_state) = Some (''home'', ''pw1'')
   \<and> loadWiFiCredentials (clearWiFiCredentials (saveWiFiCredentials ''home'' ''pw1'' boot_state))
       = None"
  using credential_roundtrip [of "''home''" "''pw1''" boot_state]
    credential_roundtrip [of "''home''" "''pw1''" "saveWiFiCredentials ''home'' ''pw1'' boot_state"]
  by simp

text \<open>
  The round trip fails for a pair with an empty identifier, which loads as none, and for
  an identifier of 33 bytes, which loads cut to 32.
\<close>

theorem roundtrip_fails_outside_bounds:
  "loadWiFiCredentials (saveWiFiCredentials [] ''secret'' boot_state) = None
   \<and> loadWiFiCredentials (saveWiFiCredentials (replicate 33 CHR ''a'') ''secret'' boot_state)
       = Some (replicate 32 CHR ''a'', ''secret'')
   \<and> replicate 32 CHR ''a'' \<noteq> replicate 33 CHR ''a''"
  by (simp add: loadWiFiCredentials_def saveWiFiCredentials_def getString_def strncpy_term_def
      emit_def boot_state_def)

text \<open>
  Claim C9. \<^verbatim>\<open>load\<close> returns the first 32 bytes of the stored identifier and the
  first 63 bytes of the stored secret, so that \<^verbatim>\<open>save\<close> followed by \<^verbatim>\<open>load\<close> is the
  identity exactly for the pairs within these bounds with an identifier that is not
  empty; \<^verbatim>\<open>load\<close> returns none exactly when the identifier it reads from the store is
  the empty string; and the credentials of the provisioning session are read through the
  same cuts.
\<close>

theorem load_truncates:
  "loadWiFiCredentials (saveWiFiCredentials ssid password s) =
     (if ssid = [] then None else Some (take 32 ssid, take 63 password))
   \<and> (loadWiFiCredentials (saveWiFiCredentials ssid password s) = Some (ssid, password)
        \<longleftrightarrow> ssid \<noteq> [] \<and> length ssid \<le> 32 \<and> length password \<le> 63)
   \<and> (loadWiFiCredentials s = None \<longleftrightarrow> getString (nvs s) ''ssid'' [] = [])
   \<and> loadWiFiCredentials s =
       (if getString (nvs s) ''ssid'' [] = [] then None
        else Some (take 32 (getString (nvs s) ''ssid'' []),
                   take 63 (getString (nvs s) ''password'' [])))
   \<and> getBLEWiFiSSID s =
       (if receivedSSID s = [] then None else Some (take 32 (receivedSSID s)))
   \<and> getBLEWiFiPassword s =
       (if receivedPassword s = [] then None else Some (take 63 (receivedPassword s)))"
  by (simp add: loadWiFiCredentials_def saveWiFiCredentials_def getString_def strncpy_term_def
      emit_def getBLEWiFiSSID_def getBLEWiFiPassword_def Let_def)

theorem load_truncates_witness:
  "loadWiFiCredentials (saveWiFiCredentials (replicate 40 CHR ''s'') (replicate 70 CHR ''p'') boot_state)
     = Some (replicate 32 CHR ''s'', replicate 63 CHR ''p'')
   \<and> loadWiFiCredentials boot_state = None
   \<and> getBLEWiFiSSID (boot_state\<lparr>receivedSSID := replicate 40 CHR ''s''\<rparr>)
       = Some (replicate 32 CHR ''s'')
   \<and> getBLEWiFiPassword (boot_state\<lparr>receivedPassword := replicate 70 CHR ''p''\<rparr>)
       = Some (replicate 63 CHR ''p'')"
  using load_truncates [of "replicate 40 CHR ''s''" "replicate 70 CHR ''p''" boot_state]
    load_truncates [of "[]" "[]" boot_state]
    load_truncates [of "[]" "[]" "boot_state\<lparr>receivedSSID := replicate 40 CHR ''s''\<rparr>"]
    load_truncates [of "[]" "[]" "boot_state\<lparr>receivedPassword := replicate 70 CHR ''p''\<rparr>"]
  by (simp add: boot_state_def getString_def)

section \<open>The wifi-clear command\<close>

text \<open>
  Claim C8. On a wifi-clear command the handler publishes the disconnected status on
  the channel, then disconnects the MQTT session, then disconnects WiFi with erasure,
  then clears the credential store, then restarts the device, in this order and with
  nothing in between; afterwards \<^verbatim>\<open>load\<close> returns none.
\<close>

theorem wifi_clear_order:
  "trace (onMqttMessage TOPIC_WIFI_CLEAR payload now s) =
     trace s @ [MqttPublish TOPIC_WIFI_STATE STATUS_DISCONNECTED True, MqttDisconnect,
                WiFiDisconnect True True, NvsClear, EspRestart]
   \<and> nvs (onMqttMessage TOPIC_WIFI_CLEAR payload now s) = Map.empty
   \<and> loadWiFiCredentials (onMqttMessage TOPIC_WIFI_CLEAR payload now s) = None"
  by (simp add: onMqttMessage_def wifi_clear_command_def mqtt_publish_def emit_def
      clearWiFiCredentials_def loadWiFiCredentials_def getString_def Let_def)

theorem wifi_clear_order_witness:
  "loadWiFiCredentials provisioning_state = Some (''home'', ''pw1'')
   \<and> trace (onMqttMessage TOPIC_WIFI_CLEAR [] 0 provisioning_state) =
     [MqttPublish TOPIC_WIFI_STATE STATUS_DISCONNECTED True, MqttDisconnect,
      WiFiDisconnect True True, NvsClear, EspRestart]
   \<and> loadWiFiCredentials (onMqttMessage TOPIC_WIFI_CLEAR [] 0 provisioning_state) = None"
  using wifi_clear_order [of "[]" 0 provisioning_state]
  by (simp add: provisioning_state_def boot_state_def loadWiFiCredentials_def getString_def
      strncpy_term_def)

section \<open>Valve mode\<close>

text \<open>
  Claim C6, amended. For every mode \<open>m\<close> in \<open>{1, 2}\<close>, two calls of
  \<^verbatim>\<open>setValveMode(m)\<close> in succession write the valve relay at most once: once when the
  valve was in the other mode, not at all when it was in mode \<open>m\<close> already. The second
  call never writes the relay. The two calls publish two valve snapshots, both reporting
  \<open>m\<close>.
\<close>

theorem setValveMode_twice:
  assumes "m = 1 \<or> m = 2"
  shows "valve_relay_writes (trace (setValveMode m (setValveMode m s))) =
           valve_relay_writes (trace s) + (if valveMode s = m then 0 else 1)
    \<and> valve_relay_writes (trace (setValveMode m (setValveMode m s))) =
           valve_relay_writes (trace (setValveMode m s))
    \<and> valve_snapshots (trace (setValveMode m (setValveMode m s))) =
           valve_snapshots (trace s) @ [String_of_int m, String_of_int m]
    \<and> valveMode (setValveMode m (setValveMode m s)) = m"
proof -
  have one: "String_of_int 1 = ''1''" and two: "String_of_int 2 = ''2''"
    by (simp_all add: String_of_int_def digit_char_def)
  from assms show ?thesis
    by (auto simp: setValveMode_def setValveRelay_def publishValveState_def mqtt_publish_def
        emit_def valve_relay_writes_def valve_snapshots_def valve_msg_def char_of_49 char_of_50
        one two)
qed

theorem setValveMode_twice_witness:
  "valve_relay_writes (trace (setValveMode 2 (setValveMode 2 boot_state))) = 1
   \<and> valve_relay_writes (trace (setValveMode 2 boot_state)) = 1
   \<and> valve_snapshots (trace (setValveMode 2 (setValveMode 2 boot_state))) = [''2'', ''2'']
   \<and> valveMode (setValveMode 2 (setValveMode 2 boot_state)) = 2"
  using setValveMode_twice [of 2 boot_state]
  by (simp add: boot_state_def valve_relay_writes_def valve_snapshots_def String_of_int_def
      digit_char_def)

text \<open>
  From the boot state, where the valve is in mode 1, two calls of \<^verbatim>\<open>setValveMode(1)\<close>
  write the relay not once but never.
\<close>

theorem setValveMode_twice_same_mode:
  "valveMode boot_state = 1
   \<and> valve_relay_writes (trace (setValveMode 1 (setValveMode 1 boot_state))) = 0
   \<and> valve_snapshots (trace (setValveMode 1 (setValveMode 1 boot_state))) = [''1'', ''1'']"
  by (simp add: setValveMode_def setValveRelay_def publishValveState_def mqtt_publish_def
      emit_def valve_relay_writes_def valve_snapshots_def valve_msg_def char_of_49
      boot_state_def)

section \<open>Valve and timer modes stay in range\<close>

lemma ok_emit: "modes_ok s \<Longrightarrow> valve_payload_ok ev \<Longrightarrow> modes_ok (emit ev s)"
  by (simp add: modes_ok_def emit_def)

lemma ok_publishPumpState: "modes_ok s \<Longrightarrow> modes_ok (publishPumpState s)"
  by (simp add: publishPumpState_def mqtt_publish_def ok_emit)

lemma ok_publishValveState: "modes_ok s \<Longrightarrow> modes_ok (publishValveState s)"
  unfolding publishValveState_def mqtt_publish_def
  by (rule ok_emit) (auto simp: modes_ok_def valve_msg_1 valve_msg_2)

lemma ok_publishTimerState: "modes_ok s \<Longrightarrow> modes_ok (publishTimerState s)"
  by (simp add: publishTimerState_def mqtt_publish_def ok_emit)

lemma ok_publishWiFiState: "modes_ok s \<Longrightarrow> modes_ok (publishWiFiState e s)"
  by (simp add: publishWiFiState_def mqtt_publish_def ok_emit Let_def)

lemma ok_publishTemperature: "modes_ok s \<Longrightarrow> modes_ok (publishTemperature e s)"
  by (simp add: publishTemperature_def mqtt_publish_def ok_emit split: option.splits)

lemma ok_setPumpRelay: "modes_ok s \<Longrightarrow> modes_ok (setPumpRelay b s)"
  by (simp add: setPumpRelay_def modes_ok_def emit_def)

lemma ok_setValveRelay: "modes_ok s \<Longrightarrow> modes_ok (setValveRelay m s)"
  by (auto simp add: setValveRelay_def modes_ok_def emit_def)

lemma ok_setPumpState: "modes_ok s \<Longrightarrow> modes_ok (setPumpState b s)"
  by (simp add: setPumpState_def ok_setPumpRelay ok_publishPumpState)

lemma ok_setValveMode: "modes_ok s \<Longrightarrow> modes_ok (setValveMode m s)"
  by (simp add: setValveMode_def ok_setValveRelay ok_publishValveState)

lemma ok_timer_fields:
  "modes_ok s \<Longrightarrow> modes_ok (s\<lparr>timerActive := a, timerRemaining := r\<rparr>)"
  "modes_ok s \<Longrightarrow> modes_ok (s\<lparr>timerLastUpdate := t\<rparr>)"
  "modes_ok s \<Longrightarrow> modes_ok (s\<lparr>timerRemaining := r\<rparr>)"
  "modes_ok s \<Longrightarrow> modes_ok (s\<lparr>lastPublish := t\<rparr>)"
  by (simp_all add: modes_ok_def)

lemma ok_startTimer: "modes_ok s \<Longrightarrow> modes_ok (startTimer m d now s)"
proof -
  assume a: "modes_ok s"
  have "m = 1 \<or> m = 2 \<Longrightarrow> modes_ok (s\<lparr>timerActive := True, timerMode := m,
       timerDuration := d, timerRemaining := d, timerLastUpdate := now\<rparr>)"
    using a by (auto simp: modes_ok_def)
  then show ?thesis
    using a
    by (auto simp: startTimer_def Let_def
        intro!: ok_publishTimerState ok_setPumpState ok_setValveMode)
qed

lemma ok_stopTimer: "modes_ok s \<Longrightarrow> modes_ok (stopTimer s)"
  by (simp add: stopTimer_def Let_def ok_publishTimerState ok_setPumpState ok_timer_fields)

lemma ok_updateTimer: "modes_ok s \<Longrightarrow> modes_ok (updateTimer now s)"
  by (simp add: updateTimer_def Let_def ok_publishTimerState ok_stopTimer ok_timer_fields)

lemma ok_clearWiFiCredentials: "modes_ok s \<Longrightarrow> modes_ok (clearWiFiCredentials s)"
  by (simp add: clearWiFiCredentials_def modes_ok_def emit_def)

lemma ok_saveWiFiCredentials: "modes_ok s \<Longrightarrow> modes_ok (saveWiFiCredentials a b s)"
  by (simp add: saveWiFiCredentials_def modes_ok_def emit_def Let_def)

lemma ok_onMqttMessage: "modes_ok s \<Longrightarrow> modes_ok (onMqttMessage topic payload now s)"
  by (simp add: onMqttMessage_def Let_def timer_command_def wifi_clear_command_def
      mqtt_publish_def ok_setPumpState ok_setValveMode ok_stopTimer ok_startTimer ok_emit
      ok_clearWiFiCredentials)

lemma ok_connect_loop: "modes_ok s \<Longrightarrow> modes_ok (snd (connect_loop e a b k n s))"
proof (induction n arbitrary: s k)
  case 0
  then show ?case by simp
next
  case (Suc n)
  have 1: "modes_ok (emit (WiFiBegin a b) s)"
    using Suc.prems by (simp add: ok_emit)
  then have 2: "modes_ok ((emit (WiFiBegin a b) s)\<lparr>wifiProvisioned := True\<rparr>)"
    by (simp add: modes_ok_def)
  show ?case
    using Suc.IH [OF 1] 2 by (simp add: Let_def)
qed

lemma ok_connectWiFi: "modes_ok s \<Longrightarrow> modes_ok (snd (connectWiFi e a b n s))"
  by (simp add: connectWiFi_def ok_connect_loop)

lemma ok_connectMqtt: "modes_ok s \<Longrightarrow> modes_ok (snd (connectMqtt e s))"
  by (simp add: connectMqtt_def Let_def ok_emit ok_publishPumpState ok_publishValveState
      ok_publishWiFiState ok_publishTimerState ok_publishTemperature)

lemma ok_initBLEProvisioning: "modes_ok s \<Longrightarrow> modes_ok (initBLEProvisioning s)"
  by (simp add: initBLEProvisioning_def modes_ok_def emit_def)

lemma ok_stopBLEProvisioning: "modes_ok s \<Longrightarrow> modes_ok (stopBLEProvisioning s)"
  by (simp add: stopBLEProvisioning_def modes_ok_def emit_def)

lemma ok_clearBLECredentials: "modes_ok s \<Longrightarrow> modes_ok (clearBLECredentials s)"
  by (simp add: clearBLECredentials_def modes_ok_def)

lemma ok_onWrite: "modes_ok s \<Longrightarrow> modes_ok (onWrite c v s)"
  by (cases c) (simp_all add: modes_ok_def Let_def)

lemma ok_loop_ble: "modes_ok s \<Longrightarrow> modes_ok (loop_ble e now s)"
proof -
  assume a: "modes_ok s"
  then have b: "modes_ok (s\<lparr>lastBLECheck := now\<rparr>)"
    by (simp add: modes_ok_def)
  have c: "\<And>x y ok s3.
      connectWiFi e x y 3 (stopBLEProvisioning (s\<lparr>lastBLECheck := now\<rparr>)) = (ok, s3)
      \<Longrightarrow> modes_ok s3"
    using ok_connectWiFi [OF ok_stopBLEProvisioning [OF b]] by (metis snd_conv)
  show ?thesis
    using a b c
    by (auto simp: loop_ble_def Let_def split: option.splits prod.splits
        intro!: ok_connectMqtt ok_clearBLECredentials ok_saveWiFiCredentials
          ok_initBLEProvisioning)
qed

lemma ok_initWiFiProvisioning: "modes_ok s \<Longrightarrow> modes_ok (snd (initWiFiProvisioning e s))"
proof -
  assume a: "modes_ok s"
  have c: "\<And>x y ok s3. connectWiFi e x y 3 s = (ok, s3) \<Longrightarrow> modes_ok s3"
    using ok_connectWiFi [OF a] by (metis snd_conv)
  show ?thesis
    using a c
    by (auto simp: initWiFiProvisioning_def Let_def split: option.splits prod.splits
        intro!: ok_initBLEProvisioning)
qed

lemma ok_boot: "modes_ok (boot_state\<lparr>nvs := m\<rparr>)"
  by (simp add: modes_ok_def boot_state_def)

lemma reachable_modes_ok: "reachable s \<Longrightarrow> modes_ok s"
  by (induction rule: reachable.induct)
     (simp_all add: ok_boot ok_setPumpRelay ok_setValveRelay ok_setPumpState ok_setValveMode
       ok_startTimer ok_stopTimer ok_updateTimer ok_onMqttMessage ok_publishPumpState
       ok_publishValveState ok_publishTimerState ok_publishWiFiState ok_publishTemperature
       ok_saveWiFiCredentials ok_clearWiFiCredentials ok_connectWiFi ok_connectMqtt
       ok_initBLEProvisioning ok_stopBLEProvisioning ok_clearBLECredentials ok_onWrite
       ok_loop_ble ok_initWiFiProvisioning)

text \<open>
  Claim C10. In every reachable state \<open>valveMode\<close> is 1 or 2 and \<open>timerMode\<close> is 1 or
  2; the payload \<^verbatim>\<open>publishValveState\<close> would send is \<^verbatim>\<open>"1"\<close> or \<^verbatim>\<open>"2"\<close>, and so is
  every payload that was published on the valve-state topic; and \<^verbatim>\<open>setValveRelay\<close>,
  \<^verbatim>\<open>setValveMode\<close> and \<^verbatim>\<open>startTimer\<close> leave the whole state unchanged when the mode
  they are given is neither 1 nor 2.
\<close>

theorem modes_invariant:
  assumes "reachable s"
  shows "(valveMode s = 1 \<or> valveMode s = 2) \<and> (timerMode s = 1 \<or> timerMode s = 2)
     \<and> (valve_msg s = ''1'' \<or> valve_msg s = ''2'')
     \<and> (\<forall>p r. MqttPublish TOPIC_VALVE_STATE p r \<in> set (trace s) \<longrightarrow> p = ''1'' \<or> p = ''2'')
     \<and> (\<forall>m d now. m \<noteq> 1 \<and> m \<noteq> 2 \<longrightarrow>
            setValveRelay m s = s \<and> setValveMode m s = s \<and> startTimer m d now s = s)"
proof -
  from assms have ok: "modes_ok s"
    by (rule reachable_modes_ok)
  then have 1: "valveMode s = 1 \<or> valveMode s = 2"
    and 2: "timerMode s = 1 \<or> timerMode s = 2"
    and 3: "list_all valve_payload_ok (trace s)"
    by (simp_all add: modes_ok_def)
  from 1 have 4: "valve_msg s = ''1'' \<or> valve_msg s = ''2''"
    using valve_msg_1 valve_msg_2 by blast
  have 5: "\<forall>p r. MqttPublish TOPIC_VALVE_STATE p r \<in> set (trace s) \<longrightarrow> p = ''1'' \<or> p = ''2''"
  proof (intro allI impI)
    fix p r
    assume "MqttPublish TOPIC_VALVE_STATE p r \<in> set (trace s)"
    with 3 have "valve_payload_ok (MqttPublish TOPIC_VALVE_STATE p r)"
      unfolding list_all_iff by (rule bspec)
    then show "p = ''1'' \<or> p = ''2''"
      by simp
  qed
  have 6: "\<forall>m d now. m \<noteq> 1 \<and> m \<noteq> 2 \<longrightarrow>
            setValveRelay m s = s \<and> setValveMode m s = s \<and> startTimer m d now s = s"
    by (simp add: setValveRelay_def setValveMode_def startTimer_def)
  from 1 2 4 5 6 show ?thesis
    by blast
qed

theorem modes_invariant_witness:
  "reachable sample_reachable \<and> valveMode sample_reachable = 2
   \<and> timerMode sample_reachable = 1 \<and> valve_msg sample_reachable = ''2''
   \<and> trace sample_reachable =
        [DigitalWrite VALVE_RELAY_PIN True, MqttPublish TOPIC_VALVE_STATE ''2'' True]
   \<and> setValveMode 7 sample_reachable = sample_reachable"
proof -
  have "reachable (boot_state\<lparr>nvs := Map.empty\<rparr>)"
    by (rule reachable.boot)
  then have "reachable boot_state"
    by (simp add: boot_state_def)
  then have r: "reachable sample_reachable"
    unfolding sample_reachable_def by (rule reachable.r_onMqttMessage)
  have v: "sample_reachable = boot_state\<lparr>valveMode := 2,
      trace := [DigitalWrite VALVE_RELAY_PIN True, MqttPublish TOPIC_VALVE_STATE ''2'' True]\<rparr>"
    by (simp add: sample_reachable_def onMqttMessage_def payloadToString_def String_equals_def
        c_str_def trim_def isspace_def toupper_def Let_def setValveMode_def setValveRelay_def
        publishValveState_def mqtt_publish_def emit_def valve_msg_def char_of_50 boot_state_def)
  from modes_invariant [OF r] have "setValveMode 7 sample_reachable = sample_reachable"
    by simp
  moreover from modes_invariant [OF r]
  have "valve_msg sample_reachable = ''1'' \<or> valve_msg sample_reachable = ''2''"
    by blast
  ultimately show ?thesis
    using r by (simp add: v boot_state_def valve_msg_def char_of_50)
qed

section \<open>Failed connections keep the stored credentials\<close>

lemma connect_loop_nvs: "nvs (snd (connect_loop e a b k n s)) = nvs s"
  by (induction n arbitrary: s k) (simp_all add: Let_def emit_def)

lemma connect_loop_fail:
  "(\<forall>j < n. \<not> link_up e (k + j)) \<Longrightarrow>
     connect_loop e a b k n s = (False, s\<lparr>trace := trace s @ replicate n (WiFiBegin a b)\<rparr>)"
proof (induction n arbitrary: s k)
  case 0
  then show ?case by simp
next
  case (Suc n)
  from Suc.prems have h: "\<not> link_up e k"
    by force
  from Suc.prems have "\<forall>j<n. \<not> link_up e (Suc k + j)"
    by force
  from Suc.IH [OF this] h show ?case
    by (simp add: Let_def emit_def replicate_app_Cons_same)
qed

lemma connectWiFi3_fail:
  assumes "all_attempts_fail e"
  shows "connectWiFi e a b WIFI_RETRY_ATTEMPTS s =
    (False, s\<lparr>trace := trace s @ replicate 3 (WiFiBegin a b)\<rparr>)"
proof -
  have "\<forall>j<3. \<not> link_up e (1 + j)"
  proof (intro allI impI)
    fix j :: nat
    assume "j < 3"
    then have "j = 0 \<or> j = 1 \<or> j = 2"
      by arith
    with assms show "\<not> link_up e (1 + j)"
      by (auto simp: all_attempts_fail_def numeral_2_eq_2 numeral_3_eq_3)
  qed
  then have "connect_loop e a b 1 3 s =
      (False, s\<lparr>trace := trace s @ replicate 3 (WiFiBegin a b)\<rparr>)"
    by (rule connect_loop_fail)
  then show ?thesis
    by (simp add: connectWiFi_def)
qed

text \<open>
  Claim C7, amended. No call of \<^verbatim>\<open>connectWiFi\<close>, whatever its retry count and its
  outcome, changes the stored credentials, so \<^verbatim>\<open>load\<close> returns after it what it
  returned before; the same holds for the boot path \<^verbatim>\<open>initWiFiProvisioning\<close>. When
  freshly provisioned credentials fail every attempt of the one \<^verbatim>\<open>connectWiFi\<close> call
  the loop makes for them (three attempts, the default retry count), the pending
  identifier, secret and flag are cleared, BLE provisioning is started again, and the
  stored credentials are untouched.
\<close>

theorem failed_connect_keeps_credentials:
  "nvs (snd (connectWiFi e ssid password retryAttempts s)) = nvs s
   \<and> loadWiFiCredentials (snd (connectWiFi e ssid password retryAttempts s))
       = loadWiFiCredentials s
   \<and> loadWiFiCredentials (snd (initWiFiProvisioning e s)) = loadWiFiCredentials s
   \<and> (pending_ready now s \<and> all_attempts_fail e \<longrightarrow>
        nvs (loop_ble e now s) = nvs s
        \<and> loadWiFiCredentials (loop_ble e now s) = loadWiFiCredentials s
        \<and> receivedSSID (loop_ble e now s) = [] \<and> receivedPassword (loop_ble e now s) = []
        \<and> \<not> newCredentialsReceived (loop_ble e now s)
        \<and> bleActive (loop_ble e now s)
        \<and> trace (loop_ble e now s) = trace s @ [BLEStop] @
             replicate 3 (WiFiBegin (take 32 (receivedSSID s)) (take 63 (receivedPassword s)))
             @ [BLEStart])"
proof -
  have 1: "nvs (snd (connectWiFi e ssid password retryAttempts s)) = nvs s"
    for ssid password retryAttempts s
    by (simp add: connectWiFi_def connect_loop_nvs)
  then have 2: "loadWiFiCredentials (snd (connectWiFi e ssid password retryAttempts s))
      = loadWiFiCredentials s"
    by (simp add: loadWiFiCredentials_def)
  have "nvs (snd (initWiFiProvisioning e s)) = nvs s"
    using 1 [of _ _ 3 s]
    by (auto simp: initWiFiProvisioning_def initBLEProvisioning_def emit_def Let_def
        split: option.splits prod.splits) (metis snd_conv)+
  then have 3: "loadWiFiCredentials (snd (initWiFiProvisioning e s)) = loadWiFiCredentials s"
    by (simp add: loadWiFiCredentials_def)
  have 4: "nvs (loop_ble e now s) = nvs s
        \<and> loadWiFiCredentials (loop_ble e now s) = loadWiFiCredentials s
        \<and> receivedSSID (loop_ble e now s) = [] \<and> receivedPassword (loop_ble e now s) = []
        \<and> \<not> newCredentialsReceived (loop_ble e now s)
        \<and> bleActive (loop_ble e now s)
        \<and> trace (loop_ble e now s) = trace s @ [BLEStop] @
             replicate 3 (WiFiBegin (take 32 (receivedSSID s)) (take 63 (receivedPassword s)))
             @ [BLEStart]"
    if p: "pending_ready now s" and f: "all_attempts_fail e"
    using p
    by (simp add: loop_ble_def pending_ready_def isBLEProvisioningActive_def
        hasNewWiFiCredentials_def getBLEWiFiSSID_def getBLEWiFiPassword_def strncpy_term_def
        Let_def connectWiFi3_fail [OF f] stopBLEProvisioning_def clearBLECredentials_def
        initBLEProvisioning_def emit_def loadWiFiCredentials_def)
  from 1 2 3 4 show ?thesis
    by blast
qed

theorem failed_connect_witness:
  "pending_ready 2000 provisioning_state \<and> all_attempts_fail dead_env
   \<and> loadWiFiCredentials (loop_ble dead_env 2000 provisioning_state) = Some (''home'', ''pw1'')
   \<and> receivedSSID (loop_ble dead_env 2000 provisioning_state) = []
   \<and> bleActive (loop_ble dead_env 2000 provisioning_state)
   \<and> trace (loop_ble dead_env 2000 provisioning_state) =
        [BLEStop, WiFiBegin ''cafe'' ''pw2'', WiFiBegin ''cafe'' ''pw2'',
         WiFiBegin ''cafe'' ''pw2'', BLEStart]"
proof -
  have p: "pending_ready 2000 provisioning_state"
    by (simp add: pending_ready_def provisioning_state_def boot_state_def)
  have f: "all_attempts_fail dead_env"
    by (simp add: all_attempts_fail_def dead_env_def)
  have l: "loadWiFiCredentials provisioning_state = Some (''home'', ''pw1'')"
    by (simp add: provisioning_state_def boot_state_def loadWiFiCredentials_def getString_def
        strncpy_term_def)
  from failed_connect_keeps_credentials [of dead_env _ _ _ provisioning_state 2000] p f l
  show ?thesis
    by (simp add: provisioning_state_def boot_state_def numeral_3_eq_3)
qed

text \<open>
  The claim speaks of a single connection attempt. When the first attempt for freshly
  provisioned credentials fails and the second succeeds, the loop does not restart
  provisioning: it stores the new pair over the saved one.
\<close>

theorem first_attempt_failure_is_retried:
  "\<not> link_up flaky_env 1
   \<and> loadWiFiCredentials provisioning_state = Some (''home'', ''pw1'')
   \<and> loadWiFiCredentials (loop_ble flaky_env 2000 provisioning_state) = Some (''cafe'', ''pw2'')
   \<and> \<not> bleActive (loop_ble flaky_env 2000 provisioning_state)"
  by (simp add: loop_ble_def flaky_env_def provisioning_state_def boot_state_def
      isBLEProvisioningActive_def hasNewWiFiCredentials_def getBLEWiFiSSID_def
      getBLEWiFiPassword_def strncpy_term_def Let_def connectWiFi_def numeral_3_eq_3
      connectMqtt_def saveWiFiCredentials_def stopBLEProvisioning_def clearBLECredentials_def
      initBLEProvisioning_def emit_def loadWiFiCredentials_def getString_def)

section \<open>The scan listing\<close>

lemma scan_loop_length:
  "length json + 1 \<le> 400 \<Longrightarrow> length (scan_loop ns json c) + 1 \<le> 400"
proof (induction ns arbitrary: json c)
  case Nil
  then show ?case by simp
next
  case (Cons n ns)
  show ?case
  proof (cases "length (net_ssid n) = 0")
    case True
    with Cons show ?thesis by simp
  next
    case False
    show ?thesis
    proof (cases "length json + length (scan_entry n) + (if c > 0 then 1 else 0) + 1 > 400")
      case True
      with False Cons.prems show ?thesis
        by (simp add: Let_def)
    next
      case over: False
      have "length (json @ (if c > 0 then '','' else []) @ scan_entry n) + 1 \<le> 400"
        using over by (simp split: if_splits)
      from Cons.IH [OF this] False over show ?thesis
        by (simp add: Let_def)
    qed
  qed
qed

text \<open>The listing never exceeds the budget of 400 bytes, whatever the scan returned.\<close>

lemma scan_within_budget: "length (scanWiFiNetworks r) \<le> 400"
proof -
  have "length (scan_loop ns ''['' 0) + 1 \<le> 400" for ns
    by (rule scan_loop_length) simp
  then show ?thesis
    by (simp add: scanWiFiNetworks_def Let_def)
qed

lemma listing_body_snoc:
  "listing_body (ks @ [n]) = listing_body ks @ (if ks = [] then [] else '','') @ scan_entry n"
  by (induction ks rule: listing_body.induct) simp_all

lemma scan_loop_prefix:
  "\<exists>k. scan_loop ns (''['' @ listing_body done) (length done) =
          ''['' @ listing_body (done @ take k (named ns))"
proof (induction ns arbitrary: "done")
  case Nil
  show ?case
    by (simp add: named_def)
next
  case (Cons n ns)
  show ?case
  proof (cases "net_ssid n = []")
    case True
    from Cons.IH [of "done"] True show ?thesis
      by (simp add: named_def)
  next
    case False
    show ?thesis
    proof (cases "length (''['' @ listing_body done) + length (scan_entry n)
        + (if length done > 0 then 1 else 0) + 1 > 400")
      case True
      have "scan_loop (n # ns) (''['' @ listing_body done) (length done) =
          ''['' @ listing_body (done @ take 0 (named (n # ns)))"
        using True False by (simp add: Let_def)
      then show ?thesis
        by blast
    next
      case over: False
      from Cons.IH [of "done @ [n]"] obtain k where
        k: "scan_loop ns (''['' @ listing_body (done @ [n])) (length (done @ [n])) =
            ''['' @ listing_body ((done @ [n]) @ take k (named ns))"
        by blast
      have "scan_loop (n # ns) (''['' @ listing_body done) (length done) =
            ''['' @ listing_body (done @ take (Suc k) (named (n # ns)))"
        using over False k
        by (cases "done = []") (simp_all add: Let_def listing_body_snoc named_def)
      then show ?thesis
        by blast
    qed
  qed
qed

text \<open>
  The listing holds whole entries only, of the first so many networks that have a name:
  no entry is cut and no network without a name is listed.
\<close>

lemma scan_whole_entries:
  "\<exists>k. scanWiFiNetworks (ScanDone ns) = ''['' @ listing_body (take k (named ns)) @ '']''"
proof (cases "ns = []")
  case True
  then have "scanWiFiNetworks (ScanDone ns) = ''['' @ listing_body (take 0 (named ns)) @ '']''"
    by (simp add: scanWiFiNetworks_def)
  then show ?thesis
    by blast
next
  case False
  from scan_loop_prefix [of ns "[]"] obtain k where
    "scan_loop ns ''['' 0 = ''['' @ listing_body (take k (named ns))"
    by auto
  with False have
    "scanWiFiNetworks (ScanDone ns) = ''['' @ listing_body (take k (named ns)) @ '']''"
    by (simp add: scanWiFiNetworks_def Let_def)
  then show ?thesis
    by blast
qed

lemma scan_failed_is_empty:
  "scanWiFiNetworks ScanRunning = ''[]'' \<and> scanWiFiNetworks ScanFailed = ''[]''"
  by (simp add: scanWiFiNetworks_def Let_def)

text \<open>
  When every name is plain, the listing is well-formed JSON: the recogniser accepts each
  entry, and so the array of them.
\<close>

lemma json_chars_plain:
  "list_all plain_char s \<Longrightarrow> json_chars (s @ CHR 0x22 # rest) = Some rest"
  by (induction s) (simp_all add: plain_char_def)

lemma digit_char_digit:
  assumes "k < 10"
  shows "isdigit (digit_char k) \<and> (digit_char k = CHR ''0'' \<longrightarrow> k = 0)"
proof -
  from assms consider "k = 0" | "k = 1" | "k = 2" | "k = 3" | "k = 4" | "k = 5" | "k = 6"
    | "k = 7" | "k = 8" | "k = 9"
    by atomize_elim arith
  then show ?thesis
    by cases (simp_all add: digit_char_def isdigit_def)
qed

lemma String_of_nat_digits:
  "\<exists>c ds. String_of_nat n = c # ds \<and> isdigit c \<and> list_all isdigit ds
      \<and> (c = CHR ''0'' \<longrightarrow> n = 0 \<and> ds = [])"
proof (induction n rule: String_of_nat.induct)
  case (1 n)
  show ?case
  proof (cases "n < 10")
    case True
    have "String_of_nat n = [digit_char n]"
      using True by (subst String_of_nat.simps) simp
    with digit_char_digit [OF True] show ?thesis
      by simp
  next
    case False
    from 1 [OF False] obtain c ds where
      ih: "String_of_nat (n div 10) = c # ds" "isdigit c" "list_all isdigit ds"
        "c = CHR ''0'' \<longrightarrow> n div 10 = 0 \<and> ds = []"
      by blast
    from False have nz: "n div 10 \<noteq> 0"
      by simp
    have "n mod 10 < 10"
      by simp
    then have dl: "isdigit (digit_char (n mod 10))"
      using digit_char_digit by blast
    have "String_of_nat n = c # (ds @ [digit_char (n mod 10)])"
      using False ih(1) by (subst String_of_nat.simps) simp
    with ih nz dl show ?thesis
      by simp
  qed
qed

lemma comma_not_digit: "\<not> isdigit (CHR '','')"
  by (simp add: isdigit_def)

lemma digits_then_comma:
  "list_all isdigit ds \<Longrightarrow> dropWhile isdigit (ds @ CHR '','' # r) = CHR '','' # r"
  by (induction ds) (simp_all add: comma_not_digit)

lemma json_fraction_comma: "json_fraction (CHR '','' # r) = Some (CHR '','' # r)"
  by (simp add: json_fraction_def json_exponent_def)

lemma json_number_digits:
  assumes "isdigit c" and "list_all isdigit ds" and "c = CHR ''0'' \<longrightarrow> ds = []"
  shows "json_number (c # ds @ CHR '','' # r) = Some (CHR '','' # r)"
    and "json_number (CHR ''-'' # c # ds @ CHR '','' # r) = Some (CHR '','' # r)"
proof -
  from assms(1) have nm: "c \<noteq> CHR ''-''"
    by (auto simp: isdigit_def)
  show "json_number (c # ds @ CHR '','' # r) = Some (CHR '','' # r)"
    using assms nm by (auto simp: json_number_def json_fraction_comma digits_then_comma)
  show "json_number (CHR ''-'' # c # ds @ CHR '','' # r) = Some (CHR '','' # r)"
    using assms nm by (auto simp: json_number_def json_fraction_comma digits_then_comma)
qed

lemma String_of_int_shape:
  "\<exists>c ds. (String_of_int i = c # ds \<or> String_of_int i = CHR ''-'' # c # ds)
      \<and> isdigit c \<and> list_all isdigit ds \<and> (c = CHR ''0'' \<longrightarrow> ds = [])"
proof (cases "i < 0")
  case True
  obtain c ds where d: "String_of_nat (nat (- i)) = c # ds" "isdigit c" "list_all isdigit ds"
      "c = CHR ''0'' \<longrightarrow> nat (- i) = 0 \<and> ds = []"
    using String_of_nat_digits by blast
  have "String_of_int i = CHR ''-'' # c # ds"
    using d(1) True by (simp add: String_of_int_def)
  with d show ?thesis
    by blast
next
  case False
  obtain c ds where d: "String_of_nat (nat i) = c # ds" "isdigit c" "list_all isdigit ds"
      "c = CHR ''0'' \<longrightarrow> nat i = 0 \<and> ds = []"
    using String_of_nat_digits by blast
  have "String_of_int i = c # ds"
    using d(1) False by (simp add: String_of_int_def)
  with d show ?thesis
    by blast
qed

lemma digit_not_ws: "isdigit c \<Longrightarrow> \<not> json_ws c"
  by (auto simp: isdigit_def json_ws_def)

lemma minus_not_ws: "\<not> json_ws (CHR ''-'')"
  by (simp add: json_ws_def)

lemma skip_ws_int: "skip_ws (String_of_int i @ r) = String_of_int i @ r"
proof -
  obtain c ds where d: "String_of_int i = c # ds \<or> String_of_int i = CHR ''-'' # c # ds"
      "isdigit c"
    using String_of_int_shape by blast
  from d(1) show ?thesis
  proof
    assume "String_of_int i = c # ds"
    then show ?thesis
      using d(2) by (simp add: skip_ws_def digit_not_ws)
  next
    assume "String_of_int i = CHR ''-'' # c # ds"
    then show ?thesis
      by (simp add: skip_ws_def minus_not_ws)
  qed
qed

lemma json_value_int:
  "json_value (Suc f) (String_of_int i @ CHR '','' # r) = Some (CHR '','' # r)"
proof -
  obtain c ds where d: "String_of_int i = c # ds \<or> String_of_int i = CHR ''-'' # c # ds"
      "isdigit c" "list_all isdigit ds" "c = CHR ''0'' \<longrightarrow> ds = []"
    using String_of_int_shape by blast
  from d(2) have nc: "c \<noteq> CHR ''{''" "c \<noteq> CHR ''[''" "c \<noteq> CHR 0x22"
    by (auto simp: isdigit_def)
  from d(1) show ?thesis
  proof
    assume "String_of_int i = c # ds"
    then show ?thesis
      using json_number_digits(1) [of c ds r] d nc by simp
  next
    assume "String_of_int i = CHR ''-'' # c # ds"
    then show ?thesis
      using json_number_digits(2) [of c ds r] d by simp
  qed
qed

lemma json_value_string: "json_value (Suc f) (CHR 0x22 # r) = json_chars r"
  by simp

lemma json_value_true: "json_value (Suc f) (CHR ''t'' # CHR ''r'' # CHR ''u'' # CHR ''e'' # r) = Some r"
  by (simp add: isdigit_def)

lemma json_value_false:
  "json_value (Suc f) (CHR ''f'' # CHR ''a'' # CHR ''l'' # CHR ''s'' # CHR ''e'' # r) = Some r"
  by (simp add: isdigit_def)

lemma json_value_object:
  "json_value (Suc f) (CHR ''{'' # CHR 0x22 # r) = json_members f (CHR 0x22 # r)"
  by (simp add: skip_ws_def json_ws_def)

lemma skip_ws_literal:
  "skip_ws (CHR 0x22 # r) = CHR 0x22 # r" "skip_ws (CHR '':'' # r) = CHR '':'' # r"
  "skip_ws (CHR '','' # r) = CHR '','' # r" "skip_ws (CHR ''}'' # r) = CHR ''}'' # r"
  "skip_ws (CHR ''t'' # r) = CHR ''t'' # r" "skip_ws (CHR ''f'' # r) = CHR ''f'' # r"
  "skip_ws (CHR '']'' # r) = CHR '']'' # r" "skip_ws (CHR ''{'' # r) = CHR ''{'' # r"
  by (simp_all add: skip_ws_def json_ws_def)

lemma json_value_entry:
  assumes "list_all plain_char (net_ssid n)"
  shows "json_value (Suc (Suc (Suc (Suc (Suc f))))) (scan_entry n @ rest) = Some rest"
  using assms
  by (simp add: scan_entry_def json_value_object json_value_string json_value_true
      json_value_false json_value_int json_chars_plain skip_ws_literal skip_ws_int
      del: json_value.simps)


lemma json_value_entry_fuel:
  assumes "list_all plain_char (net_ssid n)" and "5 \<le> g"
  shows "json_value g (scan_entry n @ rest) = Some rest"
proof -
  from assms(2) obtain f where "g = 5 + f"
    using le_Suc_ex by blast
  then have "g = Suc (Suc (Suc (Suc (Suc f))))"
    by simp
  with json_value_entry [OF assms(1)] show ?thesis
    by simp
qed

lemma scan_entry_starts: "\<exists>r. scan_entry n = CHR ''{'' # r"
  by (simp add: scan_entry_def)

lemma listing_body_starts: "ks \<noteq> [] \<Longrightarrow> \<exists>r. listing_body ks = CHR ''{'' # r"
proof (induction ks rule: listing_body.induct)
  case 1
  then show ?case by simp
next
  case (2 n)
  show ?case using scan_entry_starts [of n] by simp
next
  case (3 n m ns)
  show ?case using scan_entry_starts [of n] by auto
qed

lemma json_elements_listing:
  "ks \<noteq> [] \<Longrightarrow> plain_names ks \<Longrightarrow> length ks + 5 \<le> g \<Longrightarrow>
     json_elements g (listing_body ks @ CHR '']'' # rest) = Some rest"
proof (induction ks arbitrary: g rule: listing_body.induct)
  case 1
  then show ?case by simp
next
  case (2 n)
  from "2.prems" obtain g' where g: "g = Suc g'" and g': "5 \<le> g'"
    by (cases g) auto
  from "2.prems" have p: "list_all plain_char (net_ssid n)"
    by (simp add: plain_names_def)
  show ?case
    by (simp add: g json_value_entry_fuel [OF p g'] skip_ws_literal del: json_value.simps)
next
  case (3 n m ns)
  from "3.prems" obtain g' where g: "g = Suc g'" and g': "length (m # ns) + 5 \<le> g'"
    by (cases g) auto
  then have g5: "5 \<le> g'"
    by simp
  from "3.prems" have p: "list_all plain_char (net_ssid n)" and ps: "plain_names (m # ns)"
    by (simp_all add: plain_names_def)
  obtain r where r: "listing_body (m # ns) = CHR ''{'' # r"
    using listing_body_starts [of "m # ns"] by auto
  have ih: "json_elements g' (listing_body (m # ns) @ CHR '']'' # rest) = Some rest"
    by (rule "3.IH") (use ps g' in simp_all)
  have sk: "skip_ws (listing_body (m # ns) @ CHR '']'' # rest)
      = listing_body (m # ns) @ CHR '']'' # rest"
    by (simp add: r skip_ws_literal)
  have jv: "json_value g' (scan_entry n @ CHR '','' # listing_body (m # ns) @ CHR '']'' # rest)
      = Some (CHR '','' # listing_body (m # ns) @ CHR '']'' # rest)"
    by (rule json_value_entry_fuel [OF p g5])
  have lb: "listing_body (n # m # ns) @ CHR '']'' # rest
      = scan_entry n @ CHR '','' # listing_body (m # ns) @ CHR '']'' # rest"
    by simp
  show ?case
    unfolding lb g
    by (simp add: jv skip_ws_literal sk ih del: json_value.simps listing_body.simps)
qed

lemma scan_entry_length: "4 \<le> length (scan_entry n)"
  by (simp add: scan_entry_def)

lemma listing_body_length: "4 * length ks \<le> length (listing_body ks)"
proof (induction ks rule: listing_body.induct)
  case 1
  show ?case by simp
next
  case (2 n)
  show ?case using scan_entry_length [of n] by simp
next
  case (3 n m ns)
  then show ?case using scan_entry_length [of n] by simp
qed

lemma listing_wellformed:
  assumes "plain_names ks"
  shows "json_wellformed (''['' @ listing_body ks @ '']'')"
proof (cases "ks = []")
  case True
  then show ?thesis
    by (simp add: json_wellformed_def skip_ws_def json_ws_def)
next
  case False
  obtain r where r: "listing_body ks = CHR ''{'' # r"
    using listing_body_starts [OF False] by auto
  from False have "1 \<le> length ks"
    by (cases ks) simp_all
  with listing_body_length [of ks] have fuel: "length ks + 5 \<le> Suc (Suc (length (listing_body ks)))"
    by simp
  have el: "json_elements (Suc (Suc (length (listing_body ks)))) (listing_body ks @ CHR '']'' # [])
      = Some []"
    by (rule json_elements_listing [OF False assms fuel])
  have "json_value (Suc (Suc (Suc (length (listing_body ks)))))
      (CHR ''['' # listing_body ks @ [CHR '']'']) = Some []"
    using el by (simp add: r skip_ws_literal del: json_elements.simps)
  then show ?thesis
    by (simp add: json_wellformed_def skip_ws_def json_ws_def del: json_value.simps)
qed

lemma plain_names_take_named:
  assumes "plain_names ns"
  shows "plain_names (take k (named ns))"
proof -
  have "set (take k (named ns)) \<subseteq> set ns"
    using set_take_subset [of k "named ns"] by (auto simp: named_def)
  with assms show ?thesis
    unfolding plain_names_def list_all_iff by blast
qed

lemma scan_wellformed_when_names_plain:
  assumes "plain_names (found r)"
  shows "json_wellformed (scanWiFiNetworks r)"
proof (cases r)
  case ScanRunning
  then show ?thesis
    using listing_wellformed [of "[]"] by (simp add: scanWiFiNetworks_def plain_names_def)
next
  case ScanFailed
  then show ?thesis
    using listing_wellformed [of "[]"] by (simp add: scanWiFiNetworks_def plain_names_def)
next
  case (ScanDone ns)
  obtain k where k: "scanWiFiNetworks (ScanDone ns) = ''['' @ listing_body (take k (named ns)) @ '']''"
    using scan_whole_entries by blast
  from assms ScanDone have "plain_names (take k (named ns))"
    by (simp add: plain_names_take_named)
  then show ?thesis
    unfolding ScanDone k by (rule listing_wellformed)
qed

text \<open>
  Claim C4. For a network list whose full listing exceeds 400 bytes the scan should
  return well-formed JSON within the budget, made of whole entries of named networks.
  The names are copied into the listing as they are: with a double quote in the name of
  the first network, the listing of a list whose full form has more than 400 bytes is
  within the budget but is not well-formed JSON.
\<close>

theorem scan_listing_not_json:
  "length (full_listing crowded_scan) > 400
   \<and> length (scanWiFiNetworks (ScanDone crowded_scan)) \<le> 400
   \<and> \<not> json_wellformed (scanWiFiNetworks (ScanDone crowded_scan))"
  by (simp add: full_listing_def named_def scanWiFiNetworks_def crowded_scan_def quoted_ap_def
      plain_ap_def scan_entry_def digit_char_def Let_def json_defs)

end
